theory Spec2Isabelle
  imports Main "HOL-Library.Word" "HOL-Library.Multiset" "HOL-Library.FSet"
begin

section \<open>TSSC point metadata: the adaptive symbol coder\<close>

text \<open>
  Source: \<^verbatim>\<open>sttp/transport/tssc/TsscPointMetadata.go\<close>. Go's \<^verbatim>\<open>byte\<close> is an
  8-bit word, \<^verbatim>\<open>int32\<close> and \<^verbatim>\<open>uint32\<close> are 32-bit words; \<^verbatim>\<open>int32\<close> is compared
  signed (\<open><s\<close>), its arithmetic wraps around as word arithmetic does.
\<close>

type_synonym byte = "8 word"
type_synonym int32 = "32 word"
type_synonym uint32 = "32 word"

text \<open>The struct of constants \<^verbatim>\<open>codeWords\<close>: one name per symbol, and its number.\<close>

datatype codeWord =
    EndOfStream
  | PointIDXOR4 | PointIDXOR8 | PointIDXOR12 | PointIDXOR16
  | PointIDXOR20 | PointIDXOR24 | PointIDXOR32
  | TimeDelta1Forward | TimeDelta2Forward | TimeDelta3Forward | TimeDelta4Forward
  | TimeDelta1Reverse | TimeDelta2Reverse | TimeDelta3Reverse | TimeDelta4Reverse
  | Timestamp2 | TimeXOR7Bit
  | StateFlags2 | StateFlags7Bit32
  | Value1 | Value2 | Value3 | ValueZero
  | ValueXOR4 | ValueXOR8 | ValueXOR12 | ValueXOR16
  | ValueXOR20 | ValueXOR24 | ValueXOR28 | ValueXOR32

fun codeWords :: "codeWord \<Rightarrow> byte" where
  "codeWords EndOfStream = 0"
| "codeWords PointIDXOR4 = 1"
| "codeWords PointIDXOR8 = 2"
| "codeWords PointIDXOR12 = 3"
| "codeWords PointIDXOR16 = 4"
| "codeWords PointIDXOR20 = 5"
| "codeWords PointIDXOR24 = 6"
| "codeWords PointIDXOR32 = 7"
| "codeWords TimeDelta1Forward = 8"
| "codeWords TimeDelta2Forward = 9"
| "codeWords TimeDelta3Forward = 10"
| "codeWords TimeDelta4Forward = 11"
| "codeWords TimeDelta1Reverse = 12"
| "codeWords TimeDelta2Reverse = 13"
| "codeWords TimeDelta3Reverse = 14"
| "codeWords TimeDelta4Reverse = 15"
| "codeWords Timestamp2 = 16"
| "codeWords TimeXOR7Bit = 17"
| "codeWords StateFlags2 = 18"
| "codeWords StateFlags7Bit32 = 19"
| "codeWords Value1 = 20"
| "codeWords Value2 = 21"
| "codeWords Value3 = 22"
| "codeWords ValueZero = 23"
| "codeWords ValueXOR4 = 24"
| "codeWords ValueXOR8 = 25"
| "codeWords ValueXOR12 = 26"
| "codeWords ValueXOR16 = 27"
| "codeWords ValueXOR20 = 28"
| "codeWords ValueXOR24 = 29"
| "codeWords ValueXOR28 = 30"
| "codeWords ValueXOR32 = 31"

text \<open>
  The three function-valued fields of the struct are closures over the encoder's or the
  decoder's bit stream. The stream itself is passed explicitly to \<open>WriteCode\<close> and
  \<open>ReadCode\<close> below; the field only records whether the closure is \<^verbatim>\<open>nil\<close>, which
  is all the struct's own code ever asks of it (besides calling it).
\<close>

datatype func = NilFunc | BoundFunc

record pointMetadata =
  PrevNextPointID1 :: int32
  PrevStateFlags1 :: uint32
  PrevStateFlags2 :: uint32
  PrevValue1 :: uint32
  PrevValue2 :: uint32
  PrevValue3 :: uint32
  commandStats :: "byte list"
  commandsSentSinceLastChange :: int32
  mode :: byte
  mode21 :: byte
  mode31 :: byte
  mode301 :: byte
  mode41 :: byte
  mode401 :: byte
  mode4001 :: byte
  startupMode :: int32
  writeBits :: func
  readBit :: func
  readBits5 :: func

text \<open>
  Every panic of the source is a value: the three panics with a message, the runtime's
  panic on an array index out of range and on a call through a \<^verbatim>\<open>nil\<close> function
  value, and the two failures of the bit stream: no bit left to read, no room left to
  write.
\<close>

datatype error =
    CodingError
  | UnsupportedCompressionMode
  | SubscriberCodingError
  | PublisherCodingError
  | IndexOutOfRange
  | NilFunctionCall
  | BufferExhausted
  | BufferFull

text \<open>\<^verbatim>\<open>newPointMetadata\<close>: every field not named in the literal is Go's zero value;
  \<^verbatim>\<open>commandStats\<close> is an array of 32 bytes.\<close>

definition newPointMetadata :: "func \<Rightarrow> func \<Rightarrow> func \<Rightarrow> pointMetadata" where
  "newPointMetadata wb rb rb5 =
     \<lparr> PrevNextPointID1 = 0, PrevStateFlags1 = 0, PrevStateFlags2 = 0,
       PrevValue1 = 0, PrevValue2 = 0, PrevValue3 = 0,
       commandStats = replicate 32 0,
       commandsSentSinceLastChange = 0,
       mode = 4,
       mode21 = 0, mode31 = 0, mode301 = 0,
       mode41 = codeWords Value1,
       mode401 = codeWords Value2,
       mode4001 = codeWords Value3,
       startupMode = 0,
       writeBits = wb, readBit = rb, readBits5 = rb5 \<rparr>"

subsection \<open>Adaptation\<close>

text \<open>The helper \<^verbatim>\<open>min\<close> of the source, on \<^verbatim>\<open>int32\<close>.\<close>

definition min_int32 :: "int32 \<Rightarrow> int32 \<Rightarrow> int32" where
  "min_int32 lv rv = (if lv <s rv then lv else if rv <s lv then rv else lv)"

text \<open>The local variables of \<^verbatim>\<open>adaptCommands\<close> that its loop updates.\<close>

record topCounts =
  code1 :: byte
  count1 :: int32
  code2 :: byte
  count2 :: int32
  code3 :: byte
  count3 :: int32
  total :: int32

definition initTopCounts :: topCounts where
  "initTopCounts =
     \<lparr> code1 = 0, count1 = 0, code2 = 1, count2 = 0, code3 = 2, count3 = 0, total = 0 \<rparr>"

text \<open>One pass of the loop body at index \<open>i\<close>, \<open>cnt\<close> being the local \<^verbatim>\<open>count\<close>,
  \<^verbatim>\<open>int32(pm.commandStats[i])\<close>; \<^verbatim>\<open>byte(i)\<close> truncates the index to 8 bits.\<close>

definition adaptStep :: "nat \<Rightarrow> int32 \<Rightarrow> topCounts \<Rightarrow> topCounts" where
  "adaptStep i cnt s0 =
     (let s = s0\<lparr> total := total s0 + cnt \<rparr> in
      if count3 s <s cnt then
        if count1 s <s cnt then
          s\<lparr> code3 := code2 s, count3 := count2 s,
             code2 := code1 s, count2 := count1 s,
             code1 := of_nat i, count1 := cnt \<rparr>
        else if count2 s <s cnt then
          s\<lparr> code3 := code2 s, count3 := count2 s,
             code2 := of_nat i, count2 := cnt \<rparr>
        else
          s\<lparr> code3 := of_nat i, count3 := cnt \<rparr>
      else s)"

text \<open>The loop \<^verbatim>\<open>for i := 0; i < len(pm.commandStats); i++\<close>: it reads entry \<open>i\<close>,
  zeroes it and updates the locals.\<close>

function adaptLoop :: "nat \<Rightarrow> byte list \<Rightarrow> topCounts \<Rightarrow> byte list \<times> topCounts" where
  "adaptLoop i stats s =
     (if i < length stats
      then adaptLoop (Suc i) (stats[i := 0]) (adaptStep i (ucast (stats ! i)) s)
      else (stats, s))"
  by pat_completeness auto
termination
  by (relation "measure (\<lambda>(i, stats, s). length stats - i)") auto

declare adaptLoop.simps [simp del]

definition mode1Size :: "topCounts \<Rightarrow> int32" where
  "mode1Size s = total s * 5"

definition mode2Size :: "topCounts \<Rightarrow> int32" where
  "mode2Size s = count1 s * 1 + (total s - count1 s) * 6"

definition mode3Size :: "topCounts \<Rightarrow> int32" where
  "mode3Size s = count1 s * 1 + count2 s * 2 + (total s - count1 s - count2 s) * 7"

definition mode4Size :: "topCounts \<Rightarrow> int32" where
  "mode4Size s =
     count1 s * 1 + count2 s * 2 + count3 s * 3
       + (total s - count1 s - count2 s - count3 s) * 8"

text \<open>\<^verbatim>\<open>math.MaxInt32\<close>.\<close>

definition MaxInt32 :: int32 where
  "MaxInt32 = 2147483647"

definition minSize :: "topCounts \<Rightarrow> int32" where
  "minSize s =
     min_int32 (min_int32 (min_int32 (min_int32 MaxInt32 (mode1Size s)) (mode2Size s))
       (mode3Size s)) (mode4Size s)"

definition adaptCommands :: "pointMetadata \<Rightarrow> error + pointMetadata" where
  "adaptCommands pm =
     (case adaptLoop 0 (commandStats pm) initTopCounts of
        (stats, s) \<Rightarrow>
          let pm0 = pm\<lparr> commandStats := stats \<rparr> in
          if minSize s = mode1Size s then
            Inr (pm0\<lparr> mode := 1, commandsSentSinceLastChange := 0 \<rparr>)
          else if minSize s = mode2Size s then
            Inr (pm0\<lparr> mode := 2, mode21 := code1 s, commandsSentSinceLastChange := 0 \<rparr>)
          else if minSize s = mode3Size s then
            Inr (pm0\<lparr> mode := 3, mode31 := code1 s, mode301 := code2 s,
                      commandsSentSinceLastChange := 0 \<rparr>)
          else if minSize s = mode4Size s then
            Inr (pm0\<lparr> mode := 4, mode41 := code1 s, mode401 := code2 s, mode4001 := code3 s,
                      commandsSentSinceLastChange := 0 \<rparr>)
          else if writeBits pm = NilFunc then Inl SubscriberCodingError
          else Inl PublisherCodingError)"

text \<open>\<^verbatim>\<open>updatedCodeStatistics\<close>. Indexing the 32-entry array with a \<open>code\<close> outside
  it panics in Go.\<close>

definition updatedCodeStatistics :: "pointMetadata \<Rightarrow> int32 \<Rightarrow> error + pointMetadata" where
  "updatedCodeStatistics pm code =
     (let pm1 = pm\<lparr> commandsSentSinceLastChange := commandsSentSinceLastChange pm + 1 \<rparr> in
      if sint code < 0 \<or> int (length (commandStats pm1)) \<le> sint code then Inl IndexOutOfRange
      else
        let i = nat (sint code);
            pm2 = pm1\<lparr> commandStats := (commandStats pm1)[i := commandStats pm1 ! i + 1] \<rparr>
        in
        if startupMode pm2 = 0 \<and> 5 <s commandsSentSinceLastChange pm2 then
          adaptCommands (pm2\<lparr> startupMode := startupMode pm2 + 1 \<rparr>)
        else if startupMode pm2 = 1 \<and> 20 <s commandsSentSinceLastChange pm2 then
          adaptCommands (pm2\<lparr> startupMode := startupMode pm2 + 1 \<rparr>)
        else if startupMode pm2 = 2 \<and> 100 <s commandsSentSinceLastChange pm2 then
          adaptCommands pm2
        else Inr pm2)"

subsection \<open>The bit stream\<close>

text \<open>
  Modelled from the spec: the writing side of the bit stream that the encoder binds to
  the struct's field \<^verbatim>\<open>writeBits\<close>. Its code is not among the source files; the spec
  (section 4.1) gives its contract: a bit writer over a byte buffer of bounded
  capacity. The model holds the bits written so far, in order, and the capacity of the
  buffer in bytes.
\<close>

record bitWriter =
  written :: "bool list"
  capacityBytes :: nat

text \<open>
  Modelled from the spec: a freshly initialized bit stream bound to a buffer of the
  given capacity (section 3, "Lifecycle").
\<close>

definition newBitWriter :: "nat \<Rightarrow> bitWriter" where
  "newBitWriter n = \<lparr> written = [], capacityBytes = n \<rparr>"

text \<open>
  Modelled from the spec: \<^verbatim>\<open>writeBits(value, n)\<close> appends the low \<open>n\<close> bits of
  \<open>value\<close>, most significant first; writing past the capacity of the buffer fails
  (BufferFull). \<open>B\<close> bits take \<open>\<lceil>B/8\<rceil>\<close> bytes, so they fit when \<open>B\<close> is at most 8
  times the capacity.
\<close>

definition BitStream_writeBits :: "int32 \<Rightarrow> int32 \<Rightarrow> bitWriter \<Rightarrow> error + bitWriter" where
  "BitStream_writeBits val n out =
     (if 8 * capacityBytes out < length (written out) + nat (sint n) then Inl BufferFull
      else Inr (out\<lparr> written := written out @ map (bit val) (rev [0..<nat (sint n)]) \<rparr>))"

text \<open>
  Modelled from the spec: the reading side is the list of the bits not yet read;
  \<^verbatim>\<open>readBit()\<close> returns the next single bit (0 or 1); reading past the written
  length fails (BufferExhausted).
\<close>

definition BitStream_readBit :: "bool list \<Rightarrow> error + (int32 \<times> bool list)" where
  "BitStream_readBit inp =
     (case inp of
        [] \<Rightarrow> Inl BufferExhausted
      | b # rest \<Rightarrow> Inr (if b then 1 else 0, rest))"

text \<open>
  Modelled from the spec: \<^verbatim>\<open>readBits5()\<close> returns the next 5 bits as an integer in
  0..31, the first bit read being the most significant.
\<close>

definition BitStream_readBits5 :: "bool list \<Rightarrow> error + (int32 \<times> bool list)" where
  "BitStream_readBits5 inp =
     (if length inp < 5 then Inl BufferExhausted
      else Inr (foldl (\<lambda>acc b. 2 * acc + (if b then 1 else 0)) 0 (take 5 inp), drop 5 inp))"

text \<open>A call through one of the three function fields: calling a \<^verbatim>\<open>nil\<close> function
  value panics.\<close>

definition callWriteBits ::
  "pointMetadata \<Rightarrow> int32 \<Rightarrow> int32 \<Rightarrow> bitWriter \<Rightarrow> error + bitWriter" where
  "callWriteBits pm val n out =
     (if writeBits pm = NilFunc then Inl NilFunctionCall
      else BitStream_writeBits val n out)"

definition callReadBit :: "pointMetadata \<Rightarrow> bool list \<Rightarrow> error + (int32 \<times> bool list)" where
  "callReadBit pm inp =
     (if readBit pm = NilFunc then Inl NilFunctionCall else BitStream_readBit inp)"

definition callReadBits5 :: "pointMetadata \<Rightarrow> bool list \<Rightarrow> error + (int32 \<times> bool list)" where
  "callReadBits5 pm inp =
     (if readBits5 pm = NilFunc then Inl NilFunctionCall else BitStream_readBits5 inp)"

subsection \<open>Writing and reading a symbol\<close>

text \<open>The \<^verbatim>\<open>switch pm.mode\<close> of \<^verbatim>\<open>WriteCode\<close>; \<^verbatim>\<open>int32(pm.mode21)\<close> extends the
  byte with zeros.\<close>

definition WriteCode_switch :: "pointMetadata \<Rightarrow> int32 \<Rightarrow> bitWriter \<Rightarrow> error + bitWriter" where
  "WriteCode_switch pm code out =
     (if mode pm = 1 then callWriteBits pm code 5 out
      else if mode pm = 2 then
        (if code = ucast (mode21 pm) then callWriteBits pm 1 1 out
         else callWriteBits pm code 6 out)
      else if mode pm = 3 then
        (if code = ucast (mode31 pm) then callWriteBits pm 1 1 out
         else if code = ucast (mode301 pm) then callWriteBits pm 1 2 out
         else callWriteBits pm code 7 out)
      else if mode pm = 4 then
        (if code = ucast (mode41 pm) then callWriteBits pm 1 1 out
         else if code = ucast (mode401 pm) then callWriteBits pm 1 2 out
         else if code = ucast (mode4001 pm) then callWriteBits pm 1 3 out
         else callWriteBits pm code 8 out)
      else Inl CodingError)"

definition WriteCode ::
  "pointMetadata \<Rightarrow> int32 \<Rightarrow> bitWriter \<Rightarrow> error + (pointMetadata \<times> bitWriter)" where
  "WriteCode pm code out =
     (case WriteCode_switch pm code out of
        Inl e \<Rightarrow> Inl e
      | Inr out' \<Rightarrow>
          (case updatedCodeStatistics pm code of
             Inl e \<Rightarrow> Inl e
           | Inr pm' \<Rightarrow> Inr (pm', out')))"

text \<open>The \<^verbatim>\<open>switch pm.mode\<close> of \<^verbatim>\<open>ReadCode\<close>: the symbol and the rest of the
  stream.\<close>

definition ReadCode_switch :: "pointMetadata \<Rightarrow> bool list \<Rightarrow> error + (int32 \<times> bool list)" where
  "ReadCode_switch pm inp =
     (if mode pm = 1 then callReadBits5 pm inp
      else if mode pm = 2 then
        (case callReadBit pm inp of
           Inl e \<Rightarrow> Inl e
         | Inr (b1, r1) \<Rightarrow>
             if b1 = 1 then Inr (ucast (mode21 pm), r1) else callReadBits5 pm r1)
      else if mode pm = 3 then
        (case callReadBit pm inp of
           Inl e \<Rightarrow> Inl e
         | Inr (b1, r1) \<Rightarrow>
             if b1 = 1 then Inr (ucast (mode31 pm), r1)
             else
               (case callReadBit pm r1 of
                  Inl e \<Rightarrow> Inl e
                | Inr (b2, r2) \<Rightarrow>
                    if b2 = 1 then Inr (ucast (mode301 pm), r2) else callReadBits5 pm r2))
      else if mode pm = 4 then
        (case callReadBit pm inp of
           Inl e \<Rightarrow> Inl e
         | Inr (b1, r1) \<Rightarrow>
             if b1 = 1 then Inr (ucast (mode41 pm), r1)
             else
               (case callReadBit pm r1 of
                  Inl e \<Rightarrow> Inl e
                | Inr (b2, r2) \<Rightarrow>
                    if b2 = 1 then Inr (ucast (mode401 pm), r2)
                    else
                      (case callReadBit pm r2 of
                         Inl e \<Rightarrow> Inl e
                       | Inr (b3, r3) \<Rightarrow>
                           if b3 = 1 then Inr (ucast (mode4001 pm), r3)
                           else callReadBits5 pm r3)))
      else Inl UnsupportedCompressionMode)"

definition ReadCode ::
  "pointMetadata \<Rightarrow> bool list \<Rightarrow> error + (int32 \<times> pointMetadata \<times> bool list)" where
  "ReadCode pm inp =
     (case ReadCode_switch pm inp of
        Inl e \<Rightarrow> Inl e
      | Inr (code, rest) \<Rightarrow>
          (case updatedCodeStatistics pm code of
             Inl e \<Rightarrow> Inl e
           | Inr pm' \<Rightarrow> Inr (code, pm', rest)))"

text \<open>A symbol as \<open>WriteCode\<close> receives it: \<^verbatim>\<open>int32(codeWords.X)\<close>.\<close>

definition codeWords_int32 :: "codeWord \<Rightarrow> int32" where
  "codeWords_int32 w = ucast (codeWords w)"

subsection \<open>The prefix templates of the spec\<close>

text \<open>
  The spelling of a symbol as the spec words it (section 4.2), to compare with what
  \<open>WriteCode\<close> writes. \<open>raw5 S\<close> is the raw 5-bit field of \<open>S\<close>, most significant bit
  first. Mode 1: the raw field. Mode 2: \<open>1\<close> on the hot slot, else \<open>0\<close> and the raw
  field. Mode 3: \<open>1\<close>, \<open>01\<close>, else \<open>00\<close> and the raw field. Mode 4: \<open>1\<close>, \<open>01\<close>,
  \<open>001\<close>, else \<open>000\<close> and the raw field.
\<close>

definition raw5 :: "int32 \<Rightarrow> bool list" where
  "raw5 S = [bit S 4, bit S 3, bit S 2, bit S 1, bit S 0]"

definition spelling :: "pointMetadata \<Rightarrow> int32 \<Rightarrow> bool list" where
  "spelling pm S =
     (if mode pm = 1 then raw5 S
      else if mode pm = 2 then
        (if S = ucast (mode21 pm) then [True] else [False] @ raw5 S)
      else if mode pm = 3 then
        (if S = ucast (mode31 pm) then [True]
         else if S = ucast (mode301 pm) then [False, True]
         else [False, False] @ raw5 S)
      else
        (if S = ucast (mode41 pm) then [True]
         else if S = ucast (mode401 pm) then [False, True]
         else if S = ucast (mode4001 pm) then [False, False, True]
         else [False, False, False] @ raw5 S))"

text \<open>Two states agree on the fields of the symbol coder: the mode, the six hot slots,
  the histogram, the counter and the startup mode. The previous-value fields and the
  bound functions may differ.\<close>

definition coderEq :: "pointMetadata \<Rightarrow> pointMetadata \<Rightarrow> bool" where
  "coderEq a b =
     (mode a = mode b \<and> mode21 a = mode21 b \<and> mode31 a = mode31 b \<and> mode301 a = mode301 b
      \<and> mode41 a = mode41 b \<and> mode401 a = mode401 b \<and> mode4001 a = mode4001 b
      \<and> commandStats a = commandStats b
      \<and> commandsSentSinceLastChange a = commandsSentSinceLastChange b
      \<and> startupMode a = startupMode b)"

subsection \<open>The adaptation schedule and runs of the coder\<close>

text \<open>What \<open>updatedCodeStatistics\<close> does first: the counter is incremented and the
  entry of the symbol in the histogram is bumped.\<close>

definition countSymbol :: "pointMetadata \<Rightarrow> int32 \<Rightarrow> pointMetadata" where
  "countSymbol pm S =
     pm\<lparr> commandsSentSinceLastChange := commandsSentSinceLastChange pm + 1,
         commandStats := (commandStats pm)[nat (sint S) := commandStats pm ! nat (sint S) + 1] \<rparr>"

text \<open>The startup mode after a symbol as the spec words the schedule (section 4.2, "When
  to adapt"), \<open>c\<close> being the incremented counter: each of the thresholds 5, 20 and 100
  bumps it; at 3 it stays.\<close>

definition spec_startupMode_after :: "int32 \<Rightarrow> int32 \<Rightarrow> int32" where
  "spec_startupMode_after sm c =
     (if sm = 0 \<and> 5 <s c then sm + 1
      else if sm = 1 \<and> 20 <s c then sm + 1
      else if sm = 2 \<and> 100 <s c then sm + 1
      else sm)"

text \<open>A run of one PointState: a sequence of calls of \<open>WriteCode\<close> and \<open>ReadCode\<close>. The
  bit stream is shared with the other points, so each call comes with the stream as
  it is at that moment. The run stops at the first panic.\<close>

datatype coderOp = WriteOp int32 bitWriter | ReadOp "bool list"

fun runOp :: "pointMetadata \<Rightarrow> coderOp \<Rightarrow> error + pointMetadata" where
  "runOp pm (WriteOp code out) =
     (case WriteCode pm code out of Inl e \<Rightarrow> Inl e | Inr (pm', out') \<Rightarrow> Inr pm')"
| "runOp pm (ReadOp inp) =
     (case ReadCode pm inp of Inl e \<Rightarrow> Inl e | Inr (code, pm', rest) \<Rightarrow> Inr pm')"

fun runOps :: "pointMetadata \<Rightarrow> coderOp list \<Rightarrow> error + pointMetadata" where
  "runOps pm [] = Inr pm"
| "runOps pm (x # xs) = (case runOp pm x of Inl e \<Rightarrow> Inl e | Inr pm' \<Rightarrow> runOps pm' xs)"

text \<open>The startup mode and the counter after \<open>k\<close> symbols of a run from a new state.\<close>

definition startupInv :: "nat \<Rightarrow> pointMetadata \<Rightarrow> bool" where
  "startupInv k pm =
     (if k < 6 then startupMode pm = 0 \<and> sint (commandsSentSinceLastChange pm) = int k
      else if k < 27 then startupMode pm = 1 \<and> sint (commandsSentSinceLastChange pm) = int k - 6
      else startupMode pm = 2 \<and> 0 \<le> sint (commandsSentSinceLastChange pm)
             \<and> sint (commandsSentSinceLastChange pm) \<le> 100)"

text \<open>States of an encoder's point that has only ever coded the symbol Value1 (20): in
  startup mode 2 with 100 symbols counted; just after an adaptation; 3 symbols after
  the adaptation that the 27th symbol fired, and one symbol 5 later.\<close>

definition stateAt100 :: pointMetadata where
  "stateAt100 = (newPointMetadata BoundFunc NilFunc NilFunc)
     \<lparr> commandStats := (replicate 32 0)[20 := 100], commandsSentSinceLastChange := 100,
       mode := 2, mode21 := 20, startupMode := 2 \<rparr>"

definition stateAdapted :: pointMetadata where
  "stateAdapted = (newPointMetadata BoundFunc NilFunc NilFunc)
     \<lparr> mode := 2, mode21 := 20, startupMode := 2 \<rparr>"

definition stateAfter30 :: pointMetadata where
  "stateAfter30 = (newPointMetadata BoundFunc NilFunc NilFunc)
     \<lparr> commandStats := (replicate 32 0)[20 := 3], commandsSentSinceLastChange := 3,
       mode := 2, mode21 := 20, startupMode := 2 \<rparr>"

definition stateAfter31 :: pointMetadata where
  "stateAfter31 = (newPointMetadata BoundFunc NilFunc NilFunc)
     \<lparr> commandStats := (replicate 32 0)[20 := 3, 5 := 1], commandsSentSinceLastChange := 4,
       mode := 2, mode21 := 20, startupMode := 2 \<rparr>"

subsection \<open>The histogram, the top counts and the mode sizes of the spec\<close>

text \<open>The histogram as integers.\<close>

definition counts :: "byte list \<Rightarrow> int list" where
  "counts h = map uint h"

text \<open>The locals of \<open>adaptCommands\<close> after the first \<open>n\<close> passes of its loop.\<close>

definition scanTo :: "byte list \<Rightarrow> nat \<Rightarrow> topCounts" where
  "scanTo h n = foldl (\<lambda>t j. adaptStep j (ucast (h ! j)) t) initTopCounts [0..<n]"

text \<open>The counts of the three most frequent symbols, the largest first.\<close>

definition topThree :: "int list \<Rightarrow> int list" where
  "topThree cs = take 3 (rev (sort cs))"

text \<open>The expected encoded size under mode \<open>m\<close> as the spec gives it (section 4.2), on
  unbounded integers: \<open>T\<close> is the histogram's total, \<open>c1 \<ge> c2 \<ge> c3\<close> the top counts.\<close>

definition specSize :: "nat \<Rightarrow> int \<Rightarrow> int \<Rightarrow> int \<Rightarrow> int \<Rightarrow> int" where
  "specSize m T c1 c2 c3 =
     (if m = 1 then 5 * T
      else if m = 2 then 1 * c1 + 6 * (T - c1)
      else if m = 3 then 1 * c1 + 2 * c2 + 7 * (T - c1 - c2)
      else 1 * c1 + 2 * c2 + 3 * c3 + 8 * (T - c1 - c2 - c3))"

text \<open>Mode \<open>m\<close> has the smallest size, and among the modes of that size the lowest
  number.\<close>

definition minimalMode :: "nat \<Rightarrow> int \<Rightarrow> int \<Rightarrow> int \<Rightarrow> int \<Rightarrow> bool" where
  "minimalMode m T c1 c2 c3 =
     (m \<in> {1, 2, 3, 4}
      \<and> (\<forall>k \<in> {1, 2, 3, 4}.
            specSize m T c1 c2 c3 \<le> specSize k T c1 c2 c3
            \<and> (specSize k T c1 c2 c3 = specSize m T c1 c2 c3 \<longrightarrow> m \<le> k)))"

text \<open>The hot slots that the current mode uses, in the order of their prefixes.\<close>

definition hotSlots :: "pointMetadata \<Rightarrow> byte list" where
  "hotSlots pm =
     (if mode pm = 2 then [mode21 pm]
      else if mode pm = 3 then [mode31 pm, mode301 pm]
      else if mode pm = 4 then [mode41 pm, mode401 pm, mode4001 pm]
      else [])"

text \<open>No symbol outside \<open>excl\<close> has a count above \<open>c\<close>.\<close>

definition maxOutside :: "int list \<Rightarrow> nat set \<Rightarrow> int \<Rightarrow> bool" where
  "maxOutside cs excl c = (\<forall>j \<in> {0..<length cs}. j \<notin> excl \<longrightarrow> cs ! j \<le> c)"

text \<open>Symbol \<open>i\<close> takes the next rank after the symbols \<open>excl\<close>: among the symbols
  outside \<open>excl\<close> its count is maximal, and it is the lowest-indexed one of that
  count.\<close>

definition isRank :: "int list \<Rightarrow> nat set \<Rightarrow> nat \<Rightarrow> bool" where
  "isRank cs excl i =
     (i < length cs \<and> i \<notin> excl
      \<and> (\<forall>j \<in> {0..<length cs}. j \<notin> excl \<longrightarrow> cs ! j \<le> cs ! i)
      \<and> (\<forall>j \<in> {0..<i}. j \<notin> excl \<longrightarrow> cs ! j < cs ! i))"

text \<open>The selection as the spec states it ("Top-3 selection"): the three symbols are the
  lexicographically least index choices among the count-maximal candidates.\<close>

definition specSelection :: "int list \<Rightarrow> nat \<Rightarrow> nat \<Rightarrow> nat \<Rightarrow> bool" where
  "specSelection cs i1 i2 i3 =
     (isRank cs {} i1 \<and> isRank cs {i1} i2 \<and> isRank cs {i1, i2} i3)"

text \<open>What holds of the locals after \<open>n\<close> passes over the histogram \<open>cs\<close>: the counts
  are ordered and bounded, \<open>total\<close> is the sum so far, and the three counts are the
  three largest of the entries seen (with three zeros added).\<close>

definition scanInvA :: "int list \<Rightarrow> nat \<Rightarrow> topCounts \<Rightarrow> bool" where
  "scanInvA cs n t =
     (0 \<le> sint (count3 t) \<and> sint (count3 t) \<le> sint (count2 t)
      \<and> sint (count2 t) \<le> sint (count1 t) \<and> sint (count1 t) \<le> 255
      \<and> sint (total t) = sum_list (take n cs)
      \<and> (\<exists>R. mset (take n cs) + {#0, 0, 0#}
                = {#sint (count1 t), sint (count2 t), sint (count3 t)#} + R
             \<and> (\<forall>r \<in># R. r \<le> sint (count3 t))))"

text \<open>And of the codes: each count bounds the entries seen outside the higher ranks, and
  a code whose count is positive is the first index with that count there.\<close>

definition scanInvB :: "int list \<Rightarrow> nat \<Rightarrow> topCounts \<Rightarrow> bool" where
  "scanInvB cs n t =
     ((\<forall>j<n. cs ! j \<le> sint (count1 t))
      \<and> (\<forall>j<n. j \<noteq> unat (code1 t) \<longrightarrow> cs ! j \<le> sint (count2 t))
      \<and> (\<forall>j<n. j \<noteq> unat (code1 t) \<longrightarrow> j \<noteq> unat (code2 t) \<longrightarrow> cs ! j \<le> sint (count3 t))
      \<and> (0 < sint (count1 t) \<longrightarrow>
            unat (code1 t) < n \<and> cs ! unat (code1 t) = sint (count1 t)
            \<and> (\<forall>j<unat (code1 t). cs ! j < sint (count1 t)))
      \<and> (0 < sint (count2 t) \<longrightarrow>
            unat (code2 t) < n \<and> unat (code2 t) \<noteq> unat (code1 t)
            \<and> cs ! unat (code2 t) = sint (count2 t)
            \<and> (\<forall>j<unat (code2 t). j \<noteq> unat (code1 t) \<longrightarrow> cs ! j < sint (count2 t)))
      \<and> (0 < sint (count3 t) \<longrightarrow>
            unat (code3 t) < n \<and> unat (code3 t) \<noteq> unat (code1 t)
            \<and> unat (code3 t) \<noteq> unat (code2 t)
            \<and> cs ! unat (code3 t) = sint (count3 t)
            \<and> (\<forall>j<unat (code3 t). j \<noteq> unat (code1 t) \<longrightarrow> j \<noteq> unat (code2 t)
                   \<longrightarrow> cs ! j < sint (count3 t))))"

text \<open>Two histograms: only symbol 0 was coded, three times; and five symbols were
  coded, two of them (9 and 23) equally often. A state with the second histogram, and
  the state that adaptation makes of it.\<close>

definition histOne :: "byte list" where
  "histOne = 3 # replicate 31 0"

definition histFour :: "byte list" where
  "histFour = (replicate 32 0)[20 := 50, 8 := 30, 23 := 10, 1 := 5, 9 := 10]"

definition stateFour :: pointMetadata where
  "stateFour = (newPointMetadata BoundFunc NilFunc NilFunc)
     \<lparr> commandStats := histFour, commandsSentSinceLastChange := 105, startupMode := 2 \<rparr>"

definition stateFourAdapted :: pointMetadata where
  "stateFourAdapted = (newPointMetadata BoundFunc NilFunc NilFunc)
     \<lparr> mode := 4, mode41 := 20, mode401 := 8, mode4001 := 9, startupMode := 2 \<rparr>"

section \<open>HashSet\<close>

text \<open>
  Source: the generated \<^verbatim>\<open>HashSet.go\<close> of package \<^verbatim>\<open>guid\<close>. A Go
  \<^verbatim>\<open>map[Guid]void\<close> is a finite set of keys; the element type is a parameter.
\<close>

type_synonym 'a HashSet = "'a fset"

definition IsEmpty :: "'a HashSet \<Rightarrow> bool" where
  "IsEmpty hs = (fcard hs = 0)"

definition Contains :: "'a HashSet \<Rightarrow> 'a \<Rightarrow> bool" where
  "Contains hs item = (item |\<in>| hs)"

text \<open>The loop \<^verbatim>\<open>for _, v := range other\<close> that returns false at the first element
  the set does not contain, and true after the last.\<close>

fun containsEach :: "'a HashSet \<Rightarrow> 'a list \<Rightarrow> bool" where
  "containsEach hs [] = True"
| "containsEach hs (v # vs) = (if \<not> Contains hs v then False else containsEach hs vs)"

definition IsProperSupersetOf :: "'a HashSet \<Rightarrow> 'a list \<Rightarrow> bool" where
  "IsProperSupersetOf hs other =
     (if IsEmpty hs then True
      else if length other = 0 then True
      else if length other \<ge> fcard hs then False
      else containsEach hs other)"

section \<open>DataRow\<close>

text \<open>
  Source: \<^verbatim>\<open>DataRow.go\<close> of package \<^verbatim>\<open>metadata\<close>. The types \<^verbatim>\<open>DataTable\<close> and
  \<^verbatim>\<open>DataColumn\<close> are declared outside the source files: a column is the record of what
  its getters return, and a table is its name and its method \<^verbatim>\<open>Column\<close>, taken as
  given, which returns the column at an index or \<^verbatim>\<open>nil\<close> (\<open>None\<close>). A value of
  type \<^verbatim>\<open>interface{}\<close> is \<open>None\<close> for \<^verbatim>\<open>nil\<close> and \<open>Some v\<close> otherwise; the
  field \<^verbatim>\<open>values\<close> is \<open>rowValues\<close> here.
\<close>

type_synonym DataTypeEnum = int

record DataColumn =
  Name :: string
  Type :: DataTypeEnum
  Expression :: string
  Computed :: bool
  Index :: int

record DataTable =
  TableName :: string
  Column :: "int \<Rightarrow> DataColumn option"

record 'v DataRow =
  parent :: DataTable
  rowValues :: "'v option list"

text \<open>An error that \<^verbatim>\<open>DataRow\<close> returns, or a panic it raises.\<close>

datatype rowError =
    ColumnIndexOutOfRange int
  | PanicTypeMismatch
  | PanicComputedAssign
  | PanicIndexOutOfRange

definition validateColumnType ::
  "'v DataRow \<Rightarrow> int \<Rightarrow> int \<Rightarrow> bool \<Rightarrow> rowError + DataColumn" where
  "validateColumnType dr columnIndex targetType read =
     (case Column (parent dr) columnIndex of
        None \<Rightarrow> Inl (ColumnIndexOutOfRange columnIndex)
      | Some column \<Rightarrow>
          if targetType > -1 \<and> Type column \<noteq> targetType then Inl PanicTypeMismatch
          else if \<not> read \<and> Computed column then Inl PanicComputedAssign
          else Inr column)"

definition getComputedValue :: "'v DataRow \<Rightarrow> DataColumn \<Rightarrow> rowError + 'v option" where
  "getComputedValue dr column = Inr None"

definition Value :: "'v DataRow \<Rightarrow> int \<Rightarrow> rowError + 'v option" where
  "Value dr columnIndex =
     (case validateColumnType dr columnIndex (-1) True of
        Inl err \<Rightarrow> Inl err
      | Inr column \<Rightarrow>
          if Computed column then getComputedValue dr column
          else if columnIndex < 0 \<or> int (length (rowValues dr)) \<le> columnIndex
            then Inl PanicIndexOutOfRange
          else Inr (rowValues dr ! nat columnIndex))"

text \<open>A row of a two-column table whose second column is computed, with a value
  stored at both indices.\<close>

definition exampleComputedColumn :: DataColumn where
  "exampleComputedColumn =
     \<lparr> Name = ''Total'', Type = 7, Expression = ''A + B'', Computed = True, Index = 1 \<rparr>"

definition exampleTable :: DataTable where
  "exampleTable =
     \<lparr> TableName = ''Measurements'',
       Column = (\<lambda>i. if i = 0
                     then Some \<lparr> Name = ''A'', Type = 7, Expression = [], Computed = False,
                                  Index = 0 \<rparr>
                     else if i = 1 then Some exampleComputedColumn else None) \<rparr>"

definition exampleRow :: "int DataRow" where
  "exampleRow = \<lparr> parent = exampleTable, rowValues = [Some 3, Some 4] \<rparr>"

section \<open>Theorems\<close>

subsection \<open>Auxiliary facts\<close>

lemma min_int32_MaxInt32: "min_int32 MaxInt32 x = x"
proof -
  have "\<not> MaxInt32 <s x"
    using sint_lt [of x] by (simp add: word_sless_alt MaxInt32_def)
  then show ?thesis
    using signed.less_linear [of x MaxInt32] by (auto simp: min_int32_def)
qed

lemma min_int32_cases: "min_int32 a b = a \<or> min_int32 a b = b"
  by (simp add: min_int32_def)

lemma minSize_cases:
  "minSize t = mode1Size t \<or> minSize t = mode2Size t
      \<or> minSize t = mode3Size t \<or> minSize t = mode4Size t"
  unfolding minSize_def min_int32_MaxInt32
  using min_int32_cases [of "mode1Size t" "mode2Size t"]
    min_int32_cases [of "min_int32 (mode1Size t) (mode2Size t)" "mode3Size t"]
    min_int32_cases [of "min_int32 (min_int32 (mode1Size t) (mode2Size t)) (mode3Size t)" "mode4Size t"]
  by metis

lemma adaptCommands_total: "\<exists>pm'. adaptCommands pm = Inr pm'"
proof -
  obtain stats t where l: "adaptLoop 0 (commandStats pm) initTopCounts = (stats, t)"
    by (cases "adaptLoop 0 (commandStats pm) initTopCounts")
  from minSize_cases [of t] show ?thesis
    by (auto simp: adaptCommands_def l Let_def)
qed

lemma updatedCodeStatistics_total:
  assumes "0 \<le> sint code" "sint code < int (length (commandStats pm))"
  shows "\<exists>pm'. updatedCodeStatistics pm code = Inr pm'"
  using assms by (simp add: updatedCodeStatistics_def Let_def adaptCommands_total)

lemma adaptCommands_coderEq:
  assumes "coderEq a b" "adaptCommands a = Inr a'"
  shows "\<exists>b'. adaptCommands b = Inr b' \<and> coderEq a' b'"
proof -
  obtain stats t where l: "adaptLoop 0 (commandStats a) initTopCounts = (stats, t)"
    by (cases "adaptLoop 0 (commandStats a) initTopCounts")
  have l': "adaptLoop 0 (commandStats b) initTopCounts = (stats, t)"
    using assms(1) l by (simp add: coderEq_def)
  show ?thesis
    using assms minSize_cases [of t]
    by (auto simp: adaptCommands_def l l' Let_def coderEq_def split: if_splits)
qed

lemma updatedCodeStatistics_coderEq:
  assumes "coderEq a b" "updatedCodeStatistics a code = Inr a'"
  shows "\<exists>b'. updatedCodeStatistics b code = Inr b' \<and> coderEq a' b'"
proof -
  let ?bump = "\<lambda>pm. pm\<lparr> commandsSentSinceLastChange := commandsSentSinceLastChange pm + 1,
      commandStats := (commandStats pm)[nat (sint code) := commandStats pm ! nat (sint code) + 1] \<rparr>"
  have e: "coderEq (?bump a) (?bump b)"
    "coderEq ((?bump a)\<lparr> startupMode := startupMode (?bump a) + 1 \<rparr>)
             ((?bump b)\<lparr> startupMode := startupMode (?bump b) + 1 \<rparr>)"
    using assms(1) by (simp_all add: coderEq_def)
  show ?thesis
    using assms e adaptCommands_coderEq [OF e(1)] adaptCommands_coderEq [OF e(2)]
    by (auto simp: updatedCodeStatistics_def Let_def coderEq_def split: if_splits)
qed

lemma symbol_cases:
  fixes S :: int32
  assumes "0 \<le> sint S" "sint S < 32"
  shows "S \<in> {0, 1, 2, 3, 4, 5, 6, 7, 8, 9, 10, 11, 12, 13, 14, 15, 16, 17, 18, 19, 20,
               21, 22, 23, 24, 25, 26, 27, 28, 29, 30, 31}"
proof -
  have "sint S \<in> {0, 1, 2, 3, 4, 5, 6, 7, 8, 9, 10, 11, 12, 13, 14, 15, 16, 17, 18, 19, 20,
               21, 22, 23, 24, 25, 26, 27, 28, 29, 30, 31}"
    using assms by simp arith
  moreover have "S = word_of_int (sint S)" by simp
  ultimately show ?thesis by (metis (no_types, opaque_lifting) insert_iff empty_iff word_of_int_numeral word_of_int_0 word_of_int_1)
qed

lemma readBits5_raw5:
  fixes S :: int32
  assumes "0 \<le> sint S" "sint S < 32"
  shows "BitStream_readBits5 (raw5 S @ rest) = Inr (S, rest)"
  using symbol_cases [OF assms]
  by (auto simp: BitStream_readBits5_def raw5_def)

lemma bit5: 
  fixes S :: int32
  assumes "0 \<le> sint S" "sint S < 32"
  shows "\<not> bit S 5" "\<not> bit S 6" "\<not> bit S 7"
  using symbol_cases [OF assms]
  by auto

lemma rev_upt:
  "rev [0..<5] = [4, 3, 2, 1, 0::nat]"
  "rev [0..<6] = [5, 4, 3, 2, 1, 0::nat]"
  "rev [0..<7] = [6, 5, 4, 3, 2, 1, 0::nat]"
  "rev [0..<8] = [7, 6, 5, 4, 3, 2, 1, 0::nat]"
  "rev [0..<1] = [0::nat]"
  "rev [0..<2] = [1, 0::nat]"
  "rev [0..<3] = [2, 1, 0::nat]"
  by code_simp+

lemma writeBits_5:
  "BitStream_writeBits S 5 out =
     (if 8 * capacityBytes out < length (written out) + 5 then Inl BufferFull
      else Inr (out\<lparr> written := written out @ raw5 S \<rparr>))"
  by (simp add: BitStream_writeBits_def raw5_def rev_upt del: upt_Suc rev_append)

lemma writeBits_678:
  fixes S :: int32
  assumes "0 \<le> sint S" "sint S < 32"
  shows "BitStream_writeBits S 6 out =
     (if 8 * capacityBytes out < length (written out) + 6 then Inl BufferFull
      else Inr (out\<lparr> written := written out @ False # raw5 S \<rparr>))"
   "BitStream_writeBits S 7 out =
     (if 8 * capacityBytes out < length (written out) + 7 then Inl BufferFull
      else Inr (out\<lparr> written := written out @ False # False # raw5 S \<rparr>))"
   "BitStream_writeBits S 8 out =
     (if 8 * capacityBytes out < length (written out) + 8 then Inl BufferFull
      else Inr (out\<lparr> written := written out @ False # False # False # raw5 S \<rparr>))"
  using bit5 [OF assms]
  by (simp_all add: BitStream_writeBits_def raw5_def rev_upt)

lemma writeBits_1:
  "BitStream_writeBits 1 1 out =
     (if 8 * capacityBytes out < length (written out) + 1 then Inl BufferFull
      else Inr (out\<lparr> written := written out @ [True] \<rparr>))"
  "BitStream_writeBits 1 2 out =
     (if 8 * capacityBytes out < length (written out) + 2 then Inl BufferFull
      else Inr (out\<lparr> written := written out @ [False, True] \<rparr>))"
  "BitStream_writeBits 1 3 out =
     (if 8 * capacityBytes out < length (written out) + 3 then Inl BufferFull
      else Inr (out\<lparr> written := written out @ [False, False, True] \<rparr>))"
  by (simp_all add: BitStream_writeBits_def rev_upt)

lemma WriteCode_switch_spelling:
  assumes "writeBits pm = BoundFunc" "0 \<le> sint S" "sint S < 32" "mode pm \<in> {1, 2, 3, 4}"
  shows "WriteCode_switch pm S out =
     (if length (written out) + length (spelling pm S) \<le> 8 * capacityBytes out
      then Inr (out\<lparr> written := written out @ spelling pm S \<rparr>)
      else Inl BufferFull)"
  using assms(1,4) writeBits_678 [OF assms(2,3), of out]
  by (auto simp: WriteCode_switch_def spelling_def callWriteBits_def writeBits_5 writeBits_1
      raw5_def)

lemma readBit_simps:
  "BitStream_readBit (True # r) = Inr (1, r)"
  "BitStream_readBit (False # r) = Inr (0, r)"
  by (simp_all add: BitStream_readBit_def)

lemma ReadCode_switch_spelling:
  assumes "readBit pm = BoundFunc" "readBits5 pm = BoundFunc"
    "0 \<le> sint S" "sint S < 32" "mode pm \<in> {1, 2, 3, 4}"
  shows "ReadCode_switch pm (spelling pm S @ rest) = Inr (S, rest)"
  using assms(1,2,5) readBits5_raw5 [OF assms(3,4), of rest]
  by (auto simp: ReadCode_switch_def spelling_def callReadBit_def callReadBits5_def
      readBit_simps)

lemma spelling_coderEq: "coderEq a b \<Longrightarrow> spelling a S = spelling b S"
  by (simp add: spelling_def coderEq_def)


lemma adaptLoop_stats:
  "fst (adaptLoop i stats s) = take i stats @ replicate (length stats - i) 0"
proof (induction i stats s rule: adaptLoop.induct)
  case (1 i stats s)
  show ?case
  proof (cases "i < length stats")
    case True
    then have "fst (adaptLoop i stats s) = take (Suc i) (stats[i := 0]) @ replicate (length stats - Suc i) 0"
      using 1 by (subst adaptLoop.simps) simp
    also have "\<dots> = take i stats @ replicate (length stats - i) 0"
      using True by (simp add: take_Suc_conv_app_nth replicate_app_Cons_same Suc_diff_Suc flip: replicate_Suc)
    finally show ?thesis .
  next
    case False
    then show ?thesis by (subst adaptLoop.simps) simp
  qed
qed

lemma adaptCommands_fields:
  assumes "adaptCommands pm = Inr pm'"
  shows "startupMode pm' = startupMode pm"
    "commandsSentSinceLastChange pm' = 0"
    "commandStats pm' = replicate (length (commandStats pm)) 0"
    "mode pm' \<in> {1, 2, 3, 4}"
    "writeBits pm' = writeBits pm" "readBit pm' = readBit pm" "readBits5 pm' = readBits5 pm"
proof -
  obtain stats t where l: "adaptLoop 0 (commandStats pm) initTopCounts = (stats, t)"
    by (cases "adaptLoop 0 (commandStats pm) initTopCounts")
  have s: "stats = replicate (length (commandStats pm)) 0"
    using adaptLoop_stats [of 0 "commandStats pm" initTopCounts] l by simp
  show "startupMode pm' = startupMode pm"
    "commandsSentSinceLastChange pm' = 0"
    "commandStats pm' = replicate (length (commandStats pm)) 0"
    "mode pm' \<in> {1, 2, 3, 4}"
    "writeBits pm' = writeBits pm" "readBit pm' = readBit pm" "readBits5 pm' = readBits5 pm"
    using assms s by (auto simp: adaptCommands_def l Let_def split: if_splits)
qed

lemma updatedCodeStatistics_schedule:
  "updatedCodeStatistics pm S =
     (if sint S < 0 \<or> int (length (commandStats pm)) \<le> sint S then Inl IndexOutOfRange
      else if startupMode pm = 0 \<and> 5 <s commandsSentSinceLastChange pm + 1
        then adaptCommands ((countSymbol pm S)\<lparr> startupMode := 1 \<rparr>)
      else if startupMode pm = 1 \<and> 20 <s commandsSentSinceLastChange pm + 1
        then adaptCommands ((countSymbol pm S)\<lparr> startupMode := 2 \<rparr>)
      else if startupMode pm = 2 \<and> 100 <s commandsSentSinceLastChange pm + 1
        then adaptCommands (countSymbol pm S)
      else Inr (countSymbol pm S))"
  by (simp add: updatedCodeStatistics_def countSymbol_def Let_def)

lemma sint_add1:
  fixes x :: int32
  assumes "sint x < 2147483647"
  shows "sint (x + 1) = sint x + 1"
proof -
  have "- (2 ^ 31) \<le> sint x" using sint_ge [of x] by simp
  then show ?thesis
    using assms by (simp add: sint_word_add signed_take_bit_int_eq_self)
qed

lemma updatedCodeStatistics_startupMode_mono:
  assumes "updatedCodeStatistics pm S = Inr pm'"
  shows "startupMode pm \<le>s startupMode pm'"
  using assms adaptCommands_fields(1) [of "(countSymbol pm S)\<lparr> startupMode := 1 \<rparr>" pm']
      adaptCommands_fields(1) [of "(countSymbol pm S)\<lparr> startupMode := 2 \<rparr>" pm']
      adaptCommands_fields(1) [of "countSymbol pm S" pm']
  by (auto simp: updatedCodeStatistics_schedule countSymbol_def word_sle_eq split: if_splits)

lemma sint_less_numeral:
  "(5 <s (c::int32)) = (5 < sint c)" "(20 <s c) = (20 < sint c)" "(100 <s c) = (100 < sint c)"
  by (simp_all add: word_sless_alt)

lemma updatedCodeStatistics_startupInv:
  assumes "startupInv k pm" "updatedCodeStatistics pm S = Inr pm'"
  shows "startupInv (Suc k) pm'"
proof -
  let ?c = "commandsSentSinceLastChange pm"
  have b: "sint ?c \<le> 100" "0 \<le> sint ?c"
    using assms(1) by (auto simp: startupInv_def split: if_splits)
  then have c1: "sint (?c + 1) = sint ?c + 1"
    by (simp add: sint_add1)
  note f = adaptCommands_fields(1,2) [of "(countSymbol pm S)\<lparr> startupMode := 1 \<rparr>" pm']
      adaptCommands_fields(1,2) [of "(countSymbol pm S)\<lparr> startupMode := 2 \<rparr>" pm']
      adaptCommands_fields(1,2) [of "countSymbol pm S" pm']
  show ?thesis
    using assms f b
    by (auto simp: updatedCodeStatistics_schedule startupInv_def sint_less_numeral c1
        countSymbol_def split: if_splits)
qed

lemma runOp_updatedCodeStatistics:
  assumes "runOp pm x = Inr pm'"
  shows "\<exists>S. updatedCodeStatistics pm S = Inr pm'"
  using assms
  by (cases x) (auto simp: WriteCode_def ReadCode_def split: sum.splits prod.splits)

lemma runOps_startupInv:
  "startupInv k pm \<Longrightarrow> runOps pm xs = Inr pm' \<Longrightarrow> startupInv (k + length xs) pm'"
proof (induction xs arbitrary: k pm)
  case Nil
  then show ?case by simp
next
  case (Cons x xs)
  from Cons.prems(2) obtain pm1 where 1: "runOp pm x = Inr pm1" and 2: "runOps pm1 xs = Inr pm'"
    by (auto split: sum.splits)
  from 1 obtain S where "updatedCodeStatistics pm S = Inr pm1"
    using runOp_updatedCodeStatistics by blast
  then have "startupInv (Suc k) pm1"
    using Cons.prems(1) updatedCodeStatistics_startupInv by blast
  from Cons.IH [OF this 2] show ?case by simp
qed

lemma runOps_startupMode_mono:
  "runOps pm xs = Inr pm' \<Longrightarrow> startupMode pm \<le>s startupMode pm'"
proof (induction xs arbitrary: pm)
  case Nil
  then show ?case by simp
next
  case (Cons x xs)
  from Cons.prems obtain pm1 where 1: "runOp pm x = Inr pm1" and 2: "runOps pm1 xs = Inr pm'"
    by (auto split: sum.splits)
  from 1 obtain S where "updatedCodeStatistics pm S = Inr pm1"
    using runOp_updatedCodeStatistics by blast
  then have "startupMode pm \<le>s startupMode pm1"
    by (rule updatedCodeStatistics_startupMode_mono)
  with Cons.IH [OF 2] show ?case by (rule signed.order_trans [rotated])
qed

lemma startupInv_new: "startupInv 0 (newPointMetadata wb rb rb5)"
  by (simp add: startupInv_def newPointMetadata_def)

lemma runOps_append:
  "runOps pm (xs @ ys) = (case runOps pm xs of Inl e \<Rightarrow> Inl e | Inr pm' \<Rightarrow> runOps pm' ys)"
  by (induction xs arbitrary: pm) (auto split: sum.splits)

lemma uint_byte_bounds: "0 \<le> uint (b::byte)" "uint (b::byte) \<le> 255"
  using uint_lt2p [of b] by simp_all

lemma sint_ucast_byte: "sint (ucast (b::byte) :: int32) = uint b"
proof -
  have "sint (ucast b :: int32) = signed_take_bit 31 (uint b)"
    by (simp add: signed_ucast_eq)
  also have "\<dots> = uint b"
  proof (rule signed_take_bit_int_eq_self)
    have "- (2 ^ 31) \<le> (0::int)" by simp
    also have "0 \<le> uint b" by simp
    finally show "- (2 ^ 31) \<le> uint b" .
    show "uint b < 2 ^ 31" using uint_byte_bounds(2) [of b] by simp
  qed
  finally show ?thesis .
qed

lemma sint_add_small:
  fixes x y :: int32
  assumes "0 \<le> sint x" "sint x \<le> 1000000" "0 \<le> sint y" "sint y \<le> 255"
  shows "sint (x + y) = sint x + sint y"
  using assms by (simp add: sint_word_add signed_take_bit_int_eq_self)

lemma unat_byte_of_nat: "n < 256 \<Longrightarrow> unat (of_nat n :: byte) = n"
  by (simp add: unat_of_nat)

lemma adaptLoop_fold:
  "snd (adaptLoop i stats s) =
     foldl (\<lambda>t j. adaptStep j (ucast (stats ! j)) t) s [i..<length stats]"
proof (induction i stats s rule: adaptLoop.induct)
  case (1 i stats s)
  show ?case
  proof (cases "i < length stats")
    case True
    have "snd (adaptLoop i stats s) =
        foldl (\<lambda>t j. adaptStep j (ucast (stats[i := 0] ! j)) t)
          (adaptStep i (ucast (stats ! i)) s) [Suc i..<length stats]"
      using 1 True by (subst adaptLoop.simps) simp
    also have "\<dots> = foldl (\<lambda>t j. adaptStep j (ucast (stats ! j)) t)
          (adaptStep i (ucast (stats ! i)) s) [Suc i..<length stats]"
      by (rule foldl_cong) auto
    also have "\<dots> = foldl (\<lambda>t j. adaptStep j (ucast (stats ! j)) t) s [i..<length stats]"
      using True by (simp add: upt_conv_Cons)
    finally show ?thesis .
  next
    case False
    then show ?thesis by (subst adaptLoop.simps) simp
  qed
qed

lemma adaptLoop_scanTo: "snd (adaptLoop 0 h initTopCounts) = scanTo h (length h)"
  by (simp add: adaptLoop_fold scanTo_def)

lemma scanTo_0: "scanTo h 0 = initTopCounts"
  by (simp add: scanTo_def)

lemma scanTo_Suc: "scanTo h (Suc n) = adaptStep n (ucast (h ! n)) (scanTo h n)"
  by (simp add: scanTo_def)

lemma scanInvA_0: "scanInvA cs 0 initTopCounts"
  by (simp add: scanInvA_def initTopCounts_def)

lemma scanInvB_0: "scanInvB cs 0 initTopCounts"
  by (simp add: scanInvB_def initTopCounts_def)

lemma sum_list_byte_bound: "sum_list (map uint (h :: byte list)) \<le> 255 * int (length h)"
  by (induction h) (use uint_byte_bounds in \<open>auto simp: algebra_simps intro: add_mono\<close>)

lemma adaptStep_fields:
  fixes b :: byte and n :: nat and t :: topCounts
  defines "x \<equiv> uint b"
  defines "t' \<equiv> adaptStep n (ucast b) t"
  shows "total t' = total t + ucast b"
    and "x \<le> sint (count3 t) \<Longrightarrow>
           count1 t' = count1 t \<and> count2 t' = count2 t \<and> count3 t' = count3 t
           \<and> code1 t' = code1 t \<and> code2 t' = code2 t \<and> code3 t' = code3 t"
    and "sint (count3 t) < x \<Longrightarrow> sint (count1 t) < x \<Longrightarrow>
           count1 t' = ucast b \<and> count2 t' = count1 t \<and> count3 t' = count2 t
           \<and> code1 t' = of_nat n \<and> code2 t' = code1 t \<and> code3 t' = code2 t"
    and "sint (count3 t) < x \<Longrightarrow> x \<le> sint (count1 t) \<Longrightarrow> sint (count2 t) < x \<Longrightarrow>
           count1 t' = count1 t \<and> count2 t' = ucast b \<and> count3 t' = count2 t
           \<and> code1 t' = code1 t \<and> code2 t' = of_nat n \<and> code3 t' = code2 t"
    and "sint (count3 t) < x \<Longrightarrow> x \<le> sint (count1 t) \<Longrightarrow> x \<le> sint (count2 t) \<Longrightarrow>
           count1 t' = count1 t \<and> count2 t' = count2 t \<and> count3 t' = ucast b
           \<and> code1 t' = code1 t \<and> code2 t' = code2 t \<and> code3 t' = of_nat n"
  by (simp_all add: x_def t'_def adaptStep_def Let_def word_sless_alt sint_ucast_byte)

lemma scanInvA_step:
  assumes inv: "scanInvA cs n t" and n: "n < length h" and cs: "cs = counts h"
    and len: "length h \<le> 256"
  shows "scanInvA cs (Suc n) (adaptStep n (ucast (h ! n)) t)"
proof -
  define x where "x = uint (h ! n)"
  define t' where "t' = adaptStep n (ucast (h ! n)) t"
  let ?c1 = "sint (count1 t)" and ?c2 = "sint (count2 t)" and ?c3 = "sint (count3 t)"
  have xn: "cs ! n = x" and tk: "take (Suc n) cs = take n cs @ [x]"
    using n by (simp_all add: cs counts_def x_def take_Suc_conv_app_nth)
  have xb: "0 \<le> x" "x \<le> 255"
    using uint_byte_bounds [of "h ! n"] by (simp_all add: x_def)
  have sx: "sint (ucast (h ! n) :: int32) = x"
    by (simp add: sint_ucast_byte x_def)
  from inv have ord: "0 \<le> ?c3" "?c3 \<le> ?c2" "?c2 \<le> ?c1" "?c1 \<le> 255"
    and tot: "sint (total t) = sum_list (take n cs)"
    by (simp_all add: scanInvA_def)
  from inv obtain R where R: "mset (take n cs) + {#0, 0, 0#} = {#?c1, ?c2, ?c3#} + R"
    and Rle: "\<forall>r \<in># R. r \<le> ?c3"
    by (auto simp: scanInvA_def)
  have "sum_list (take n cs) \<le> 255 * int (length (take n h))"
    using sum_list_byte_bound [of "take n h"] by (simp add: cs counts_def take_map)
  also have "\<dots> \<le> 1000000" using n len by simp
  finally have tb: "sint (total t) \<le> 1000000" by (simp add: tot)
  have "0 \<le> sum_list (take n cs)"
    by (rule sum_list_nonneg) (auto simp: cs counts_def dest: in_set_takeD)
  then have tb0: "0 \<le> sint (total t)" by (simp add: tot)
  have tot': "sint (total t') = sum_list (take (Suc n) cs)"
    using sint_add_small [OF tb0 tb, of "ucast (h ! n)"] xb
    by (simp add: t'_def adaptStep_fields(1) sx tk tot)
  note f = adaptStep_fields(2-5) [where b = "h ! n" and t = t and n = n, folded x_def t'_def]
  consider (keep) "x \<le> ?c3" | (first) "?c3 < x" "?c1 < x"
    | (second) "?c3 < x" "x \<le> ?c1" "?c2 < x" | (third) "?c3 < x" "x \<le> ?c1" "x \<le> ?c2"
    by linarith
  then have "0 \<le> sint (count3 t') \<and> sint (count3 t') \<le> sint (count2 t')
      \<and> sint (count2 t') \<le> sint (count1 t') \<and> sint (count1 t') \<le> 255
      \<and> (\<exists>R'. mset (take (Suc n) cs) + {#0, 0, 0#}
                = {#sint (count1 t'), sint (count2 t'), sint (count3 t')#} + R'
             \<and> (\<forall>r \<in># R'. r \<le> sint (count3 t')))"
  proof cases
    case keep
    have "mset (take (Suc n) cs) + {#0, 0, 0#} = {#?c1, ?c2, ?c3#} + (R + {#x#})"
      using R by (simp add: tk)
    moreover have "\<forall>r \<in># R + {#x#}. r \<le> ?c3" using Rle keep by auto
    ultimately show ?thesis using f(1) [OF keep] ord
      by (intro conjI exI [of _ "R + {#x#}"]) simp_all
  next
    case first
    have "mset (take (Suc n) cs) + {#0, 0, 0#} = {#x, ?c1, ?c2#} + (R + {#?c3#})"
      using R by (simp add: tk)
    moreover have "\<forall>r \<in># R + {#?c3#}. r \<le> ?c2" using Rle ord by auto
    ultimately show ?thesis using f(2) [OF first] ord xb first sx
      by (intro conjI exI [of _ "R + {#?c3#}"]) simp_all
  next
    case second
    have "mset (take (Suc n) cs) + {#0, 0, 0#} = {#?c1, x, ?c2#} + (R + {#?c3#})"
      using R by (simp add: tk)
    moreover have "\<forall>r \<in># R + {#?c3#}. r \<le> ?c2" using Rle ord by auto
    ultimately show ?thesis using f(3) [OF second] ord xb second sx
      by (intro conjI exI [of _ "R + {#?c3#}"]) simp_all
  next
    case third
    have "mset (take (Suc n) cs) + {#0, 0, 0#} = {#?c1, ?c2, x#} + (R + {#?c3#})"
      using R by (simp add: tk)
    moreover have "\<forall>r \<in># R + {#?c3#}. r \<le> x" using Rle third by auto
    ultimately show ?thesis using f(4) [OF third] ord xb third sx
      by (intro conjI exI [of _ "R + {#?c3#}"]) simp_all
  qed
  with tot' show ?thesis
    by (simp add: scanInvA_def t'_def)
qed

lemma scanInvB_step:
  assumes invA: "scanInvA cs n t" and inv: "scanInvB cs n t" and n: "n < length h"
    and cs: "cs = counts h" and len: "length h \<le> 256"
  shows "scanInvB cs (Suc n) (adaptStep n (ucast (h ! n)) t)"
proof -
  define x where "x = uint (h ! n)"
  define t' where "t' = adaptStep n (ucast (h ! n)) t"
  let ?c1 = "sint (count1 t)" and ?c2 = "sint (count2 t)" and ?c3 = "sint (count3 t)"
  have xn: "cs ! n = x"
    using n by (simp add: cs counts_def x_def)
  have sx: "sint (ucast (h ! n) :: int32) = x"
    by (simp add: sint_ucast_byte x_def)
  have un: "unat (of_nat n :: byte) = n"
    using n len by (simp add: unat_byte_of_nat)
  from invA have ord: "0 \<le> ?c3" "?c3 \<le> ?c2" "?c2 \<le> ?c1"
    by (simp_all add: scanInvA_def)
  note f = adaptStep_fields(2-5) [where b = "h ! n" and t = t and n = n, folded x_def t'_def]
  consider (keep) "x \<le> ?c3" | (first) "?c3 < x" "?c1 < x"
    | (second) "?c3 < x" "x \<le> ?c1" "?c2 < x" | (third) "?c3 < x" "x \<le> ?c1" "x \<le> ?c2"
    by linarith
  then have "scanInvB cs (Suc n) t'"
  proof cases
    case keep
    show ?thesis
      using inv ord keep xn unfolding scanInvB_def
      by (simp add: f(1) [OF keep] less_Suc_eq)
  next
    case first
    show ?thesis
      using inv ord first xn unfolding scanInvB_def
      by (auto simp add: f(2) [OF first] less_Suc_eq sx un)
  next
    case second
    show ?thesis
      using inv ord second xn unfolding scanInvB_def
      by (auto simp add: f(3) [OF second] less_Suc_eq sx un)
  next
    case third
    show ?thesis
      using inv ord third xn unfolding scanInvB_def
      by (auto simp add: f(4) [OF third] less_Suc_eq sx un)
  qed
  then show ?thesis by (simp add: t'_def)
qed

lemma scanInv_scanTo:
  assumes "length h \<le> 256" "n \<le> length h"
  shows "scanInvA (counts h) n (scanTo h n) \<and> scanInvB (counts h) n (scanTo h n)"
  using assms(2)
proof (induction n)
  case 0
  show ?case by (simp add: scanTo_0 scanInvA_0 scanInvB_0)
next
  case (Suc n)
  then have n: "n < length h" and a: "scanInvA (counts h) n (scanTo h n)"
    and b: "scanInvB (counts h) n (scanTo h n)"
    by simp_all
  show ?case
    using scanInvA_step [OF a n refl assms(1)] scanInvB_step [OF a b n refl assms(1)]
    by (simp add: scanTo_Suc)
qed

lemma sint_min_int32: "sint (min_int32 a b) = min (sint a) (sint b)"
  by (auto simp: min_int32_def word_sless_alt min_def)

lemma sint_minSize:
  "sint (minSize t) =
     min (min (min (sint (mode1Size t)) (sint (mode2Size t))) (sint (mode3Size t)))
       (sint (mode4Size t))"
  by (simp add: minSize_def min_int32_MaxInt32 sint_min_int32)

lemma sint_ops:
  fixes x y :: int32
  shows "- 2147483648 \<le> sint x + sint y \<Longrightarrow> sint x + sint y < 2147483648
           \<Longrightarrow> sint (x + y) = sint x + sint y"
    and "- 2147483648 \<le> sint x - sint y \<Longrightarrow> sint x - sint y < 2147483648
           \<Longrightarrow> sint (x - y) = sint x - sint y"
    and "- 2147483648 \<le> sint x * sint y \<Longrightarrow> sint x * sint y < 2147483648
           \<Longrightarrow> sint (x * y) = sint x * sint y"
  by (simp_all add: sint_word_add sint_word_diff sint_word_mult signed_take_bit_int_eq_self)

lemma modeSizes_sint:
  fixes t :: topCounts
  assumes "0 \<le> sint (count3 t)" "sint (count3 t) \<le> sint (count2 t)"
    "sint (count2 t) \<le> sint (count1 t)" "sint (count1 t) \<le> 255"
    "0 \<le> sint (total t)" "sint (total t) \<le> 100000"
    "sint (count1 t) + sint (count2 t) + sint (count3 t) \<le> sint (total t)"
  shows "sint (mode1Size t) = specSize 1 (sint (total t)) (sint (count1 t)) (sint (count2 t)) (sint (count3 t))"
    and "sint (mode2Size t) = specSize 2 (sint (total t)) (sint (count1 t)) (sint (count2 t)) (sint (count3 t))"
    and "sint (mode3Size t) = specSize 3 (sint (total t)) (sint (count1 t)) (sint (count2 t)) (sint (count3 t))"
    and "sint (mode4Size t) = specSize 4 (sint (total t)) (sint (count1 t)) (sint (count2 t)) (sint (count3 t))"
proof -
  let ?T = "sint (total t)" and ?c1 = "sint (count1 t)" and ?c2 = "sint (count2 t)"
    and ?c3 = "sint (count3 t)"
  have d1: "sint (total t - count1 t) = ?T - ?c1"
    using assms by (simp add: sint_ops)
  have d2: "sint (total t - count1 t - count2 t) = ?T - ?c1 - ?c2"
    using assms by (simp add: sint_ops d1)
  have d3: "sint (total t - count1 t - count2 t - count3 t) = ?T - ?c1 - ?c2 - ?c3"
    using assms by (simp add: sint_ops d2)
  have m2: "sint (count2 t * 2) = ?c2 * 2" and m3: "sint (count3 t * 3) = ?c3 * 3"
    using assms by (simp_all add: sint_ops)
  have e6: "sint ((total t - count1 t) * 6) = (?T - ?c1) * 6"
    using assms by (simp add: sint_ops d1)
  have e7: "sint ((total t - count1 t - count2 t) * 7) = (?T - ?c1 - ?c2) * 7"
    using assms by (simp add: sint_ops d2)
  have e8: "sint ((total t - count1 t - count2 t - count3 t) * 8) = (?T - ?c1 - ?c2 - ?c3) * 8"
    using assms by (simp add: sint_ops d3)
  show "sint (mode1Size t) = specSize 1 ?T ?c1 ?c2 ?c3"
    using assms by (simp add: mode1Size_def specSize_def sint_ops)
  show "sint (mode2Size t) = specSize 2 ?T ?c1 ?c2 ?c3"
    using assms by (simp add: mode2Size_def specSize_def sint_ops e6)
  have a12: "sint (count1 t + count2 t * 2) = ?c1 + ?c2 * 2"
    using assms by (simp add: sint_ops m2)
  show "sint (mode3Size t) = specSize 3 ?T ?c1 ?c2 ?c3"
    using assms by (simp add: mode3Size_def specSize_def sint_ops e7 a12)
  have a123: "sint (count1 t + count2 t * 2 + count3 t * 3) = ?c1 + ?c2 * 2 + ?c3 * 3"
    using assms by (simp add: sint_ops m3 a12)
  show "sint (mode4Size t) = specSize 4 ?T ?c1 ?c2 ?c3"
    using assms by (simp add: mode4Size_def specSize_def sint_ops e8 a123)
qed

lemma counts_nonneg: "x \<in> set (counts h) \<Longrightarrow> 0 \<le> x"
  by (auto simp: counts_def)

lemma take3_rev_sort:
  fixes ys :: "int list"
  assumes m: "mset ys = {#c1, c2, c3#} + R" and R: "\<forall>r \<in># R. r \<le> c3"
    and ord: "c3 \<le> c2" "c2 \<le> c1"
  shows "take 3 (rev (sort ys)) = [c1, c2, c3]"
proof -
  let ?zs = "sorted_list_of_multiset R @ [c3, c2, c1]"
  have "mset ?zs = mset ys"
    by (simp add: m)
  moreover have "sorted ?zs"
    using R ord by (auto simp: sorted_append)
  ultimately have "sort ys = ?zs"
    by (rule properties_for_sort)
  then show ?thesis by simp
qed

lemma sort_pad_zeros:
  fixes cs :: "int list"
  assumes "\<forall>x \<in> set cs. 0 \<le> x"
  shows "sort (cs @ [0, 0, 0]) = [0, 0, 0] @ sort cs"
proof (rule properties_for_sort)
  show "mset ([0, 0, 0] @ sort cs) = mset (cs @ [0, 0, 0])" by simp
  show "sorted ([0, 0, 0] @ sort cs)" using assms by (simp add: sorted_append)
qed

lemma sum_mset_nonneg_int: "\<forall>r \<in># R. (0::int) \<le> r \<Longrightarrow> 0 \<le> sum_mset R"
  by (induction R) auto

lemma topThree_scanInvA:
  assumes inv: "scanInvA (counts h) (length h) t" and len: "3 \<le> length h"
  shows "topThree (counts h) = [sint (count1 t), sint (count2 t), sint (count3 t)]"
    and "sint (count1 t) + sint (count2 t) + sint (count3 t) \<le> sum_list (counts h)"
proof -
  let ?c1 = "sint (count1 t)" and ?c2 = "sint (count2 t)" and ?c3 = "sint (count3 t)"
  let ?cs = "counts h"
  have l: "length ?cs = length h" by (simp add: counts_def)
  from inv have ord: "0 \<le> ?c3" "?c3 \<le> ?c2" "?c2 \<le> ?c1"
    by (simp_all add: scanInvA_def)
  from inv obtain R where R: "mset ?cs + {#0, 0, 0#} = {#?c1, ?c2, ?c3#} + R"
    and Rle: "\<forall>r \<in># R. r \<le> ?c3"
    by (auto simp: scanInvA_def l)
  have "take 3 (rev (sort (?cs @ [0, 0, 0]))) = [?c1, ?c2, ?c3]"
    by (rule take3_rev_sort [OF _ Rle ord(2,3)]) (use R in simp)
  moreover have "sort (?cs @ [0, 0, 0]) = [0, 0, 0] @ sort ?cs"
    by (rule sort_pad_zeros) (simp add: counts_nonneg)
  ultimately show "topThree ?cs = [?c1, ?c2, ?c3]"
    using len by (simp add: topThree_def l)
  have "\<forall>r \<in># R. 0 \<le> r"
  proof
    fix r assume "r \<in># R"
    then have "r \<in># {#?c1, ?c2, ?c3#} + R" by simp
    then have "r \<in># mset ?cs + {#0, 0, 0#}" by (simp only: R)
    then show "0 \<le> r" by (auto simp: counts_nonneg)
  qed
  then have "0 \<le> sum_mset R" by (rule sum_mset_nonneg_int)
  moreover have "sum_mset (mset ?cs + {#0, 0, 0#}) = sum_mset ({#?c1, ?c2, ?c3#} + R)"
    by (simp only: R)
  ultimately show "?c1 + ?c2 + ?c3 \<le> sum_list ?cs"
    by (simp add: sum_mset_sum_list)
qed

lemma int32_eq_sint: "(a = b) = (sint a = sint (b::int32))"
  by (auto intro: signed_word_eqI)

lemma adaptLoop_result:
  "adaptLoop 0 h initTopCounts = (replicate (length h) 0, scanTo h (length h))"
  using adaptLoop_stats [of 0 h initTopCounts] adaptLoop_scanTo [of h]
  by (cases "adaptLoop 0 h initTopCounts") simp

lemma minimalModeI:
  assumes "s1 = specSize 1 T c1 c2 c3" "s2 = specSize 2 T c1 c2 c3"
    "s3 = specSize 3 T c1 c2 c3" "s4 = specSize 4 T c1 c2 c3"
  shows "s1 \<le> s2 \<Longrightarrow> s1 \<le> s3 \<Longrightarrow> s1 \<le> s4 \<Longrightarrow> minimalMode 1 T c1 c2 c3"
    and "s2 < s1 \<Longrightarrow> s2 \<le> s3 \<Longrightarrow> s2 \<le> s4 \<Longrightarrow> minimalMode 2 T c1 c2 c3"
    and "s3 < s1 \<Longrightarrow> s3 < s2 \<Longrightarrow> s3 \<le> s4 \<Longrightarrow> minimalMode 3 T c1 c2 c3"
    and "s4 < s1 \<Longrightarrow> s4 < s2 \<Longrightarrow> s4 < s3 \<Longrightarrow> minimalMode 4 T c1 c2 c3"
  using assms by (auto simp: minimalMode_def)

subsection \<open>The claims\<close>

text \<open>
  C1, as the code has it. For every PointState with its 32-entry histogram and every
  symbol \<open>S\<close> in 0..31, coding \<open>S\<close> (by \<open>WriteCode\<close>, or by \<open>ReadCode\<close> when \<open>S\<close> is
  the symbol read) ends in \<open>updatedCodeStatistics\<close>, which returns a state: the counter
  is incremented and \<open>commandStats[S]\<close> is bumped, and then, if the startup mode is 0
  and the counter exceeds 5, or the startup mode is 1 and the counter exceeds 20, the
  startup mode is bumped and adaptation runs; else if the startup mode is 2 and the
  counter exceeds 100, adaptation runs and the startup mode stays 2; in every other
  case (any other startup mode, 3 among them) nothing more happens.
\<close>

theorem C1_schedule:
  assumes "0 \<le> sint S" and "sint S < 32" and "length (commandStats pm) = 32"
  shows "\<exists>pm'. updatedCodeStatistics pm S = Inr pm'
     \<and> WriteCode pm S out =
         (case WriteCode_switch pm S out of Inl e \<Rightarrow> Inl e | Inr out' \<Rightarrow> Inr (pm', out'))
     \<and> (case ReadCode_switch pm inp of
          Inl e \<Rightarrow> ReadCode pm inp = Inl e
        | Inr (c, rest) \<Rightarrow> if c = S then ReadCode pm inp = Inr (S, pm', rest) else True)
     \<and> (if startupMode pm = 0 \<and> 5 <s commandsSentSinceLastChange pm + 1 then
           adaptCommands ((countSymbol pm S)\<lparr> startupMode := startupMode pm + 1 \<rparr>) = Inr pm'
           \<and> startupMode pm' = 1
         else if startupMode pm = 1 \<and> 20 <s commandsSentSinceLastChange pm + 1 then
           adaptCommands ((countSymbol pm S)\<lparr> startupMode := startupMode pm + 1 \<rparr>) = Inr pm'
           \<and> startupMode pm' = 2
         else if startupMode pm = 2 \<and> 100 <s commandsSentSinceLastChange pm + 1 then
           adaptCommands (countSymbol pm S) = Inr pm' \<and> startupMode pm' = 2
         else pm' = countSymbol pm S)"
proof -
  obtain pm' where u: "updatedCodeStatistics pm S = Inr pm'"
    using updatedCodeStatistics_total [of S pm] assms by auto
  have w: "WriteCode pm S out =
         (case WriteCode_switch pm S out of Inl e \<Rightarrow> Inl e | Inr out' \<Rightarrow> Inr (pm', out'))"
    by (simp add: WriteCode_def u split: sum.split)
  have r: "(case ReadCode_switch pm inp of
          Inl e \<Rightarrow> ReadCode pm inp = Inl e
        | Inr (c, rest) \<Rightarrow> if c = S then ReadCode pm inp = Inr (S, pm', rest) else True)"
    by (simp add: ReadCode_def u split: sum.split prod.split)
  have s: "(if startupMode pm = 0 \<and> 5 <s commandsSentSinceLastChange pm + 1 then
           adaptCommands ((countSymbol pm S)\<lparr> startupMode := startupMode pm + 1 \<rparr>) = Inr pm'
           \<and> startupMode pm' = 1
         else if startupMode pm = 1 \<and> 20 <s commandsSentSinceLastChange pm + 1 then
           adaptCommands ((countSymbol pm S)\<lparr> startupMode := startupMode pm + 1 \<rparr>) = Inr pm'
           \<and> startupMode pm' = 2
         else if startupMode pm = 2 \<and> 100 <s commandsSentSinceLastChange pm + 1 then
           adaptCommands (countSymbol pm S) = Inr pm' \<and> startupMode pm' = 2
         else pm' = countSymbol pm S)"
    using u assms adaptCommands_fields(1) [of "(countSymbol pm S)\<lparr> startupMode := 1 \<rparr>" pm']
      adaptCommands_fields(1) [of "(countSymbol pm S)\<lparr> startupMode := 2 \<rparr>" pm']
      adaptCommands_fields(1) [of "countSymbol pm S" pm']
    by (auto simp: updatedCodeStatistics_schedule countSymbol_def split: if_splits)
  from u w r s show ?thesis by blast
qed

theorem C1_schedule_witness:
  "0 \<le> sint (20 :: int32) \<and> sint (20 :: int32) < 32 \<and> length (commandStats stateAt100) = 32
   \<and> (\<exists>pm'. updatedCodeStatistics stateAt100 20 = Inr pm'
         \<and> adaptCommands (countSymbol stateAt100 20) = Inr pm' \<and> startupMode pm' = 2)"
  using C1_schedule [of 20 stateAt100 "newBitWriter 1" "[]"]
  by (auto simp: stateAt100_def newPointMetadata_def)

text \<open>
  C1 as the spec states it fails: in startup mode 2, when the counter becomes 101, the
  spec's schedule bumps the startup mode to 3; the code adapts and leaves it at 2.
\<close>

theorem C1_counterexample:
  "startupMode stateAt100 = 2
   \<and> 100 <s commandsSentSinceLastChange stateAt100 + 1
   \<and> updatedCodeStatistics stateAt100 20 = Inr stateAdapted
   \<and> spec_startupMode_after (startupMode stateAt100) (commandsSentSinceLastChange stateAt100 + 1) = 3
   \<and> startupMode stateAdapted = 2"
  by code_simp

text \<open>
  C2, as the code has it. For every run of \<open>WriteCode\<close> and \<open>ReadCode\<close> calls from a
  newly constructed state, the startup mode is 0 while fewer than 6 symbols have been
  coded, 1 while fewer than 27 have, and 2 from then on: it never decreases over the
  run, it always lies in {0, 1, 2}, and it saturates at 2.
\<close>

theorem C2_startupMode:
  assumes "runOps (newPointMetadata wb rb rb5) ops = Inr pm"
    and "runOps pm later = Inr pm'"
  shows "startupMode pm = (if length ops < 6 then 0 else if length ops < 27 then 1 else 2)
       \<and> startupMode pm \<in> {0, 1, 2}
       \<and> startupMode pm \<le>s startupMode pm'
       \<and> startupMode pm' \<in> {0, 1, 2}"
proof -
  have i: "startupInv (0 + length ops) pm"
    using runOps_startupInv [OF startupInv_new assms(1)] .
  have "runOps (newPointMetadata wb rb rb5) (ops @ later) = Inr pm'"
    using assms by (simp add: runOps_append)
  from runOps_startupInv [OF startupInv_new this]
  have i': "startupInv (0 + length (ops @ later)) pm'" .
  have 1: "startupMode pm = (if length ops < 6 then 0 else if length ops < 27 then 1 else 2)"
    using i by (simp add: startupInv_def)
  have 2: "startupMode pm' \<in> {0, 1, 2}"
    using i' by (auto simp: startupInv_def split: if_splits)
  from 1 2 runOps_startupMode_mono [OF assms(2)] show ?thesis by simp
qed

theorem C2_startupMode_witness:
  "runOps (newPointMetadata BoundFunc NilFunc NilFunc) (replicate 30 (WriteOp 20 (newBitWriter 1))) = Inr stateAfter30
   \<and> runOps stateAfter30 [WriteOp 5 (newBitWriter 1)] = Inr stateAfter31
   \<and> startupMode stateAfter30 = 2 \<and> startupMode stateAfter30 \<le>s startupMode stateAfter31
   \<and> startupMode stateAfter31 \<in> {0, 1, 2}"
proof -
  have a: "runOps (newPointMetadata BoundFunc NilFunc NilFunc) (replicate 30 (WriteOp 20 (newBitWriter 1))) = Inr stateAfter30"
    by code_simp
  have b: "runOps stateAfter30 [WriteOp 5 (newBitWriter 1)] = Inr stateAfter31"
    by code_simp
  have "startupMode stateAfter30 = 2" "startupMode stateAfter30 \<le>s startupMode stateAfter31"
    "startupMode stateAfter31 \<in> {0, 1, 2}"
    using C2_startupMode [OF a b] by auto
  with a b show ?thesis by (intro conjI)
qed

text \<open>
  C2 as the spec states it fails: after 229 symbols, past the thresholds 5, 20 and 100
  and one more adaptation, the startup mode is 2, not 3.
\<close>

theorem C2_counterexample:
  "runOps (newPointMetadata BoundFunc NilFunc NilFunc) (replicate 229 (WriteOp 20 (newBitWriter 1))) = Inr stateAdapted
   \<and> startupMode stateAdapted = 2 \<and> startupMode stateAdapted \<noteq> 3"
  by code_simp

text \<open>
  C3. At every adaptation of a state with its 32-entry histogram, \<open>adaptCommands\<close>
  returns a state such that, \<open>T\<close> being the histogram's total and \<open>c1 \<ge> c2 \<ge> c3\<close> the
  counts of its three most frequent symbols: the mode installed minimizes the sizes
  \<open>5 T\<close>, \<open>c1 + 6 (T - c1)\<close>, \<open>c1 + 2 c2 + 7 (T - c1 - c2)\<close> and
  \<open>c1 + 2 c2 + 3 c3 + 8 (T - c1 - c2 - c3)\<close> of the modes 1 to 4, and is the lowest
  mode number of that size; the hot slots of the installed mode are distinct symbols
  whose counts are the top counts, in their order; every entry of the histogram is
  zero; and the counter is 0.
\<close>

theorem C3_adaptCommands_mode:
  assumes len: "length (commandStats pm) = 32"
  shows "\<exists>pm' c1 c2 c3.
       adaptCommands pm = Inr pm'
     \<and> topThree (counts (commandStats pm)) = [c1, c2, c3]
     \<and> minimalMode (unat (mode pm')) (sum_list (counts (commandStats pm))) c1 c2 c3
     \<and> map (\<lambda>s. counts (commandStats pm) ! unat s) (hotSlots pm')
         = take (unat (mode pm') - 1) [c1, c2, c3]
     \<and> distinct (hotSlots pm')
     \<and> commandStats pm' = replicate 32 0
     \<and> commandsSentSinceLastChange pm' = 0"
proof -
  define h where "h = commandStats pm"
  define cs where "cs = counts h"
  define t where "t = scanTo h (length h)"
  define T where "T = sum_list cs"
  define c1 where "c1 = sint (count1 t)"
  define c2 where "c2 = sint (count2 t)"
  define c3 where "c3 = sint (count3 t)"
  define s1 where "s1 = specSize 1 T c1 c2 c3"
  define s2 where "s2 = specSize 2 T c1 c2 c3"
  define s3 where "s3 = specSize 3 T c1 c2 c3"
  define s4 where "s4 = specSize 4 T c1 c2 c3"
  have hl: "length h = 32" by (simp add: h_def len)
  have l: "adaptLoop 0 (commandStats pm) initTopCounts = (replicate 32 0, t)"
    using adaptLoop_result [of h] by (simp add: h_def t_def len)
  have a: "scanInvA cs (length h) t" and b: "scanInvB cs (length h) t"
    using scanInv_scanTo [of h "length h"] by (simp_all add: hl cs_def t_def)
  from a have ord: "0 \<le> c3" "c3 \<le> c2" "c2 \<le> c1" "c1 \<le> 255"
    and tot: "sint (total t) = T"
    by (simp_all add: scanInvA_def c1_def c2_def c3_def T_def cs_def counts_def)
  have top: "topThree cs = [c1, c2, c3]" and sum: "c1 + c2 + c3 \<le> T"
    using topThree_scanInvA [of h t] a hl by (simp_all add: cs_def c1_def c2_def c3_def T_def)
  have "T \<le> 255 * int (length h)"
    using sum_list_byte_bound [of h] by (simp add: T_def cs_def counts_def)
  then have Tb: "T \<le> 100000" by (simp add: hl)
  have T0: "0 \<le> T" using sum ord by linarith
  have sz: "sint (mode1Size t) = s1" "sint (mode2Size t) = s2"
    "sint (mode3Size t) = s3" "sint (mode4Size t) = s4"
    using modeSizes_sint [of t] ord sum T0 Tb
    by (simp_all add: c1_def c2_def c3_def tot s1_def s2_def s3_def s4_def)
  define mn where "mn = min (min (min s1 s2) s3) s4"
  have ms: "sint (minSize t) = mn"
    by (simp add: sint_minSize sz mn_def)
  have le: "mn \<le> s1" "mn \<le> s2" "mn \<le> s3" "mn \<le> s4"
    by (simp_all add: mn_def)
  have one: "mn = s1 \<or> mn = s2 \<or> mn = s3 \<or> mn = s4"
    by (simp add: mn_def min_def)
  have e: "(minSize t = mode1Size t) = (mn = s1)"
    "(minSize t = mode2Size t) = (mn = s2)"
    "(minSize t = mode3Size t) = (mn = s3)"
    "(minSize t = mode4Size t) = (mn = s4)"
    by (simp_all add: int32_eq_sint [of "minSize t"] ms sz)
  have pos1: "s2 < s1 \<Longrightarrow> 0 < c1"
    using T0 by (simp add: s1_def s2_def specSize_def)
  have pos2: "s3 < s2 \<Longrightarrow> 0 < c2"
    using sum ord by (simp add: s2_def s3_def specSize_def)
  have pos3: "s4 < s3 \<Longrightarrow> 0 < c3"
    using sum ord by (simp add: s3_def s4_def specSize_def)
  have r1: "0 < c1 \<Longrightarrow> cs ! unat (code1 t) = c1"
    and r2: "0 < c2 \<Longrightarrow> cs ! unat (code2 t) = c2 \<and> code2 t \<noteq> code1 t"
    and r3: "0 < c3 \<Longrightarrow> cs ! unat (code3 t) = c3 \<and> code3 t \<noteq> code1 t \<and> code3 t \<noteq> code2 t"
    using b by (auto simp: scanInvB_def c1_def c2_def c3_def)
  consider (m1) "mn = s1"
    | (m2) "mn \<noteq> s1" "mn = s2"
    | (m3) "mn \<noteq> s1" "mn \<noteq> s2"
        "mn = s3"
    | (m4) "mn \<noteq> s1" "mn \<noteq> s2"
        "mn \<noteq> s3" "mn = s4"
    using one by blast
  then have "\<exists>pm'. adaptCommands pm = Inr pm'
     \<and> minimalMode (unat (mode pm')) T c1 c2 c3
     \<and> map (\<lambda>s. cs ! unat s) (hotSlots pm') = take (unat (mode pm') - 1) [c1, c2, c3]
     \<and> distinct (hotSlots pm')
     \<and> commandStats pm' = replicate 32 0
     \<and> commandsSentSinceLastChange pm' = 0"
  proof cases
    case m1
    have "adaptCommands pm = Inr (pm\<lparr> commandStats := replicate 32 0, mode := 1,
        commandsSentSinceLastChange := 0 \<rparr>)"
      using m1 by (simp add: adaptCommands_def l Let_def e)
    moreover have "minimalMode 1 T c1 c2 c3"
      by (rule minimalModeI(1) [OF s1_def s2_def s3_def s4_def]) (use m1 le in auto)
    ultimately show ?thesis by (simp add: hotSlots_def)
  next
    case m2
    have "adaptCommands pm = Inr (pm\<lparr> commandStats := replicate 32 0, mode := 2,
        mode21 := code1 t, commandsSentSinceLastChange := 0 \<rparr>)"
      using m2 by (simp add: adaptCommands_def l Let_def e)
    moreover have "minimalMode 2 T c1 c2 c3"
      by (rule minimalModeI(2) [OF s1_def s2_def s3_def s4_def]) (use m2 le in auto)
    moreover have "s2 < s1" using m2 le by simp
    ultimately show ?thesis using r1 [OF pos1] by (simp add: hotSlots_def)
  next
    case m3
    have "adaptCommands pm = Inr (pm\<lparr> commandStats := replicate 32 0, mode := 3,
        mode31 := code1 t, mode301 := code2 t, commandsSentSinceLastChange := 0 \<rparr>)"
      using m3 by (simp add: adaptCommands_def l Let_def e)
    moreover have "minimalMode 3 T c1 c2 c3"
      by (rule minimalModeI(3) [OF s1_def s2_def s3_def s4_def]) (use m3 le in auto)
    moreover have "s3 < s2" using m3 le by simp
    then have "0 < c2" by (rule pos2)
    moreover from this have "0 < c1" using ord by linarith
    ultimately show ?thesis using r1 r2 by (auto simp: hotSlots_def)
  next
    case m4
    have "adaptCommands pm = Inr (pm\<lparr> commandStats := replicate 32 0, mode := 4,
        mode41 := code1 t, mode401 := code2 t, mode4001 := code3 t,
        commandsSentSinceLastChange := 0 \<rparr>)"
      using m4 by (simp add: adaptCommands_def l Let_def e)
    moreover have "minimalMode 4 T c1 c2 c3"
      by (rule minimalModeI(4) [OF s1_def s2_def s3_def s4_def]) (use m4 le in auto)
    moreover have "s4 < s3" using m4 le by simp
    then have "0 < c3" by (rule pos3)
    moreover from this have "0 < c2" "0 < c1" using ord by linarith+
    ultimately show ?thesis using r1 r2 r3 by (auto simp: hotSlots_def)
  qed
  with top show ?thesis
    unfolding cs_def h_def T_def by blast
qed

theorem C3_adaptCommands_mode_witness:
  "length (commandStats stateFour) = 32
   \<and> adaptCommands stateFour = Inr stateFourAdapted
   \<and> topThree (counts (commandStats stateFour)) = [50, 30, 10]
   \<and> minimalMode 4 105 50 30 10
   \<and> hotSlots stateFourAdapted = [20, 8, 9]"
proof -
  have l: "length (commandStats stateFour) = 32"
    by (simp add: stateFour_def histFour_def)
  have a: "adaptCommands stateFour = Inr stateFourAdapted" by code_simp
  have t: "topThree (counts (commandStats stateFour)) = [50, 30, 10]" by code_simp
  have s: "sum_list (counts (commandStats stateFour)) = 105" by code_simp
  have m: "unat (mode stateFourAdapted) = 4"
    by (simp add: stateFourAdapted_def)
  have h: "hotSlots stateFourAdapted = [20, 8, 9]"
    by (simp add: hotSlots_def stateFourAdapted_def)
  from C3_adaptCommands_mode [OF l] have "minimalMode 4 105 50 30 10"
    by (auto simp: a t s m)
  with l a t h show ?thesis by (intro conjI)
qed

text \<open>
  C4. For any two PointStates that agree on the mode, the hot slots, the histogram,
  the counter and the startup mode, and every symbol \<open>code\<close> in 0..31, the first state
  having a bound \<^verbatim>\<open>writeBits\<close>, one of the four modes and its 32-entry histogram, the
  second a bound \<^verbatim>\<open>readBit\<close> and \<^verbatim>\<open>readBits5\<close>: when the output buffer has room for
  the symbol's spelling, \<open>WriteCode\<close> on the first state appends that spelling to the
  stream, \<open>ReadCode\<close> on the second state applied to exactly these bits returns
  \<open>code\<close> and consumes exactly them, and the two states agree on the same fields
  afterwards; when the buffer has no room, \<open>WriteCode\<close> fails with BufferFull and
  emits nothing to read.
\<close>

theorem C4_ReadCode_WriteCode:
  assumes "coderEq pm1 pm2" and "length (commandStats pm1) = 32"
    and "0 \<le> sint code" and "sint code < 32" and "mode pm1 \<in> {1, 2, 3, 4}"
    and "writeBits pm1 = BoundFunc" and "readBit pm2 = BoundFunc" and "readBits5 pm2 = BoundFunc"
  shows "if length (written out) + length (spelling pm1 code) \<le> 8 * capacityBytes out
         then \<exists>pm1' pm2' bits.
                WriteCode pm1 code out = Inr (pm1', out\<lparr> written := written out @ bits \<rparr>)
              \<and> bits = spelling pm1 code
              \<and> ReadCode pm2 (bits @ rest) = Inr (code, pm2', rest)
              \<and> coderEq pm1' pm2'
         else WriteCode pm1 code out = Inl BufferFull"
proof (cases "length (written out) + length (spelling pm1 code) \<le> 8 * capacityBytes out")
  case True
  obtain pm1' where u1: "updatedCodeStatistics pm1 code = Inr pm1'"
    using updatedCodeStatistics_total [of code pm1] assms by auto
  obtain pm2' where u2: "updatedCodeStatistics pm2 code = Inr pm2'" and e: "coderEq pm1' pm2'"
    using updatedCodeStatistics_coderEq [OF assms(1) u1] by blast
  have m2: "mode pm2 \<in> {1, 2, 3, 4}"
    using assms(1,5) by (simp add: coderEq_def)
  have w: "WriteCode pm1 code out
      = Inr (pm1', out\<lparr> written := written out @ spelling pm1 code \<rparr>)"
    using True by (simp add: WriteCode_def u1 WriteCode_switch_spelling [OF assms(6,3,4,5)])
  have r: "ReadCode pm2 (spelling pm1 code @ rest) = Inr (code, pm2', rest)"
    by (simp add: ReadCode_def u2 spelling_coderEq [OF assms(1)]
        ReadCode_switch_spelling [OF assms(7,8,3,4) m2])
  from w r e have "\<exists>pm1' pm2' bits.
                WriteCode pm1 code out = Inr (pm1', out\<lparr> written := written out @ bits \<rparr>)
              \<and> bits = spelling pm1 code
              \<and> ReadCode pm2 (bits @ rest) = Inr (code, pm2', rest)
              \<and> coderEq pm1' pm2'"
    by blast
  with True show ?thesis by simp
next
  case False
  then have "WriteCode pm1 code out = Inl BufferFull"
    by (simp add: WriteCode_def WriteCode_switch_spelling [OF assms(6,3,4,5)])
  with False show ?thesis by simp
qed

theorem C4_ReadCode_WriteCode_witness:
  "coderEq (newPointMetadata BoundFunc NilFunc NilFunc) (newPointMetadata NilFunc BoundFunc BoundFunc)
   \<and> length (commandStats (newPointMetadata BoundFunc NilFunc NilFunc)) = 32
   \<and> 0 \<le> sint (codeWords_int32 ValueZero) \<and> sint (codeWords_int32 ValueZero) < 32
   \<and> mode (newPointMetadata BoundFunc NilFunc NilFunc) \<in> {1, 2, 3, 4}
   \<and> writeBits (newPointMetadata BoundFunc NilFunc NilFunc) = BoundFunc
   \<and> readBit (newPointMetadata NilFunc BoundFunc BoundFunc) = BoundFunc
   \<and> readBits5 (newPointMetadata NilFunc BoundFunc BoundFunc) = BoundFunc
   \<and> length (written (newBitWriter 1))
        + length (spelling (newPointMetadata BoundFunc NilFunc NilFunc) (codeWords_int32 ValueZero))
       \<le> 8 * capacityBytes (newBitWriter 1)
   \<and> (\<exists>pm1' pm2'.
         WriteCode (newPointMetadata BoundFunc NilFunc NilFunc) (codeWords_int32 ValueZero)
             (newBitWriter 1)
           = Inr (pm1', \<lparr> written = [False, False, False, True, False, True, True, True],
                         capacityBytes = 1 \<rparr>)
       \<and> ReadCode (newPointMetadata NilFunc BoundFunc BoundFunc)
             ([False, False, False, True, False, True, True, True] @ [True])
           = Inr (codeWords_int32 ValueZero, pm2', [True])
       \<and> coderEq pm1' pm2')
   \<and> WriteCode (newPointMetadata BoundFunc NilFunc NilFunc) (codeWords_int32 ValueZero)
         (newBitWriter 0) = Inl BufferFull"
  using C4_ReadCode_WriteCode [of "newPointMetadata BoundFunc NilFunc NilFunc"
      "newPointMetadata NilFunc BoundFunc BoundFunc" "codeWords_int32 ValueZero"
      "newBitWriter 1" "[True]"]
    C4_ReadCode_WriteCode [of "newPointMetadata BoundFunc NilFunc NilFunc"
      "newPointMetadata NilFunc BoundFunc BoundFunc" "codeWords_int32 ValueZero"
      "newBitWriter 0" "[]"]
  by (simp add: newPointMetadata_def coderEq_def codeWords_int32_def newBitWriter_def
      spelling_def raw5_def)

text \<open>
  C5, as the code has it. The top-3 selection of \<open>adaptCommands\<close> scans the 32-entry
  histogram \<open>h\<close> in ascending index order. The three counts it ends with are ordered,
  and each bounds the counts of all symbols but those selected for a higher rank. Every
  selected code whose count is positive is the lowest-indexed symbol among the
  count-maximal candidates not selected for a higher rank, so on equal counts the lower
  index wins the higher rank. (A code whose count is zero is a leftover of the initial
  values 0, 1, 2; nothing is said of it.) The selection is a function of the histogram
  alone.
\<close>

theorem C5_top3_selection:
  assumes "length h = 32"
  shows "0 \<le> sint (count3 (snd (adaptLoop 0 h initTopCounts)))
     \<and> sint (count3 (snd (adaptLoop 0 h initTopCounts)))
         \<le> sint (count2 (snd (adaptLoop 0 h initTopCounts)))
     \<and> sint (count2 (snd (adaptLoop 0 h initTopCounts)))
         \<le> sint (count1 (snd (adaptLoop 0 h initTopCounts)))
     \<and> maxOutside (counts h) {} (sint (count1 (snd (adaptLoop 0 h initTopCounts))))
     \<and> maxOutside (counts h) {unat (code1 (snd (adaptLoop 0 h initTopCounts)))}
          (sint (count2 (snd (adaptLoop 0 h initTopCounts))))
     \<and> maxOutside (counts h) {unat (code1 (snd (adaptLoop 0 h initTopCounts))),
            unat (code2 (snd (adaptLoop 0 h initTopCounts)))}
          (sint (count3 (snd (adaptLoop 0 h initTopCounts))))
     \<and> (0 < sint (count1 (snd (adaptLoop 0 h initTopCounts))) \<longrightarrow>
          isRank (counts h) {} (unat (code1 (snd (adaptLoop 0 h initTopCounts))))
          \<and> counts h ! unat (code1 (snd (adaptLoop 0 h initTopCounts)))
              = sint (count1 (snd (adaptLoop 0 h initTopCounts))))
     \<and> (0 < sint (count2 (snd (adaptLoop 0 h initTopCounts))) \<longrightarrow>
          isRank (counts h) {unat (code1 (snd (adaptLoop 0 h initTopCounts)))}
            (unat (code2 (snd (adaptLoop 0 h initTopCounts))))
          \<and> counts h ! unat (code2 (snd (adaptLoop 0 h initTopCounts)))
              = sint (count2 (snd (adaptLoop 0 h initTopCounts))))
     \<and> (0 < sint (count3 (snd (adaptLoop 0 h initTopCounts))) \<longrightarrow>
          isRank (counts h) {unat (code1 (snd (adaptLoop 0 h initTopCounts))),
              unat (code2 (snd (adaptLoop 0 h initTopCounts)))}
            (unat (code3 (snd (adaptLoop 0 h initTopCounts))))
          \<and> counts h ! unat (code3 (snd (adaptLoop 0 h initTopCounts)))
              = sint (count3 (snd (adaptLoop 0 h initTopCounts))))"
proof -
  define t where "t = snd (adaptLoop 0 h initTopCounts)"
  have t: "t = scanTo h (length h)"
    by (simp add: t_def adaptLoop_scanTo)
  have a: "scanInvA (counts h) (length h) t" and b: "scanInvB (counts h) (length h) t"
    using scanInv_scanTo [of h "length h"] assms by (simp_all add: t)
  have l: "length (counts h) = length h"
    by (simp add: counts_def)
  from a have ord: "0 \<le> sint (count3 t)" "sint (count3 t) \<le> sint (count2 t)"
    "sint (count2 t) \<le> sint (count1 t)"
    by (simp_all add: scanInvA_def)
  from b have m: "maxOutside (counts h) {} (sint (count1 t))"
    "maxOutside (counts h) {unat (code1 t)} (sint (count2 t))"
    "maxOutside (counts h) {unat (code1 t), unat (code2 t)} (sint (count3 t))"
    by (simp_all add: scanInvB_def maxOutside_def l)
  from b have r1: "0 < sint (count1 t) \<longrightarrow>
      isRank (counts h) {} (unat (code1 t)) \<and> counts h ! unat (code1 t) = sint (count1 t)"
    by (simp add: scanInvB_def isRank_def l)
  from b have r2: "0 < sint (count2 t) \<longrightarrow>
      isRank (counts h) {unat (code1 t)} (unat (code2 t))
      \<and> counts h ! unat (code2 t) = sint (count2 t)"
    by (simp add: scanInvB_def isRank_def l)
  from b have r3: "0 < sint (count3 t) \<longrightarrow>
      isRank (counts h) {unat (code1 t), unat (code2 t)} (unat (code3 t))
      \<and> counts h ! unat (code3 t) = sint (count3 t)"
    by (simp add: scanInvB_def isRank_def l)
  from ord m r1 r2 r3 show ?thesis
    unfolding t_def by blast
qed

theorem C5_top3_selection_witness:
  "length histFour = 32
   \<and> snd (adaptLoop 0 histFour initTopCounts)
       = \<lparr> code1 = 20, count1 = 50, code2 = 8, count2 = 30, code3 = 9, count3 = 10,
           total = 105 \<rparr>
   \<and> isRank (counts histFour) {} 20
   \<and> isRank (counts histFour) {20} 8
   \<and> isRank (counts histFour) {20, 8} 9"
proof -
  have l: "length histFour = 32" by (simp add: histFour_def)
  have e: "snd (adaptLoop 0 histFour initTopCounts)
       = \<lparr> code1 = 20, count1 = 50, code2 = 8, count2 = 30, code3 = 9, count3 = 10,
           total = 105 \<rparr>"
    by code_simp
  from C5_top3_selection [OF l] have "isRank (counts histFour) {} 20"
    "isRank (counts histFour) {20} 8" "isRank (counts histFour) {20, 8} 9"
    by (simp_all add: e)
  with l e show ?thesis by (intro conjI)
qed

text \<open>
  C5 as the spec states it fails on a histogram with fewer than three symbols: when only
  symbol 0 has been coded, the code selects 0, 0 and 1, where the least index choices
  are 0, 1 and 2.
\<close>

theorem C5_counterexample:
  "snd (adaptLoop 0 histOne initTopCounts)
       = \<lparr> code1 = 0, count1 = 3, code2 = 0, count2 = 0, code3 = 1, count3 = 0, total = 3 \<rparr>
   \<and> \<not> specSelection (counts histOne) 0 0 1
   \<and> specSelection (counts histOne) 0 1 2"
  by code_simp

text \<open>
  C6. For every symbol \<open>S\<close> in 0..31 and every state with its 32-entry histogram, one
  of the four modes and a bound \<^verbatim>\<open>writeBits\<close>, \<open>WriteCode\<close> appends to the stream
  exactly the spelling of \<open>S\<close> under the current mode's prefix template (mode 1: the raw
  5-bit field; mode 2: \<open>1\<close> on the hot slot, else \<open>0\<close> and the 5 raw bits; mode 3: \<open>1\<close>,
  \<open>01\<close>, else \<open>00\<close> and the 5 raw bits; mode 4: \<open>1\<close>, \<open>01\<close>, \<open>001\<close>, else \<open>000\<close> and
  the 5 raw bits) when the output buffer has room for it, and fails with BufferFull
  when it has not. The raw field has 5 bits and reads back as \<open>S\<close>.
\<close>

theorem C6_WriteCode_spelling:
  assumes "writeBits pm = BoundFunc" and "length (commandStats pm) = 32"
    and "0 \<le> sint S" and "sint S < 32" and "mode pm \<in> {1, 2, 3, 4}"
  shows "(if length (written out) + length (spelling pm S) \<le> 8 * capacityBytes out
          then \<exists>pm'. WriteCode pm S out
                      = Inr (pm', out\<lparr> written := written out @ spelling pm S \<rparr>)
          else WriteCode pm S out = Inl BufferFull)
         \<and> length (raw5 S) = 5
         \<and> BitStream_readBits5 (raw5 S @ rest) = Inr (S, rest)"
proof -
  obtain pm' where "updatedCodeStatistics pm S = Inr pm'"
    using updatedCodeStatistics_total [of S pm] assms by auto
  then have "WriteCode pm S out =
      (if length (written out) + length (spelling pm S) \<le> 8 * capacityBytes out
       then Inr (pm', out\<lparr> written := written out @ spelling pm S \<rparr>)
       else Inl BufferFull)"
    by (simp add: WriteCode_def WriteCode_switch_spelling [OF assms(1,3,4,5)])
  then show ?thesis
    using readBits5_raw5 [OF assms(3,4)] by (auto simp: raw5_def)
qed

theorem C6_WriteCode_spelling_witness:
  "writeBits (newPointMetadata BoundFunc NilFunc NilFunc) = BoundFunc
   \<and> length (commandStats (newPointMetadata BoundFunc NilFunc NilFunc)) = 32
   \<and> 0 \<le> sint (5 :: int32) \<and> sint (5 :: int32) < 32
   \<and> mode (newPointMetadata BoundFunc NilFunc NilFunc) \<in> {1, 2, 3, 4}
   \<and> (\<exists>pm'. WriteCode (newPointMetadata BoundFunc NilFunc NilFunc) 5
            \<lparr> written = [True], capacityBytes = 2 \<rparr> =
          Inr (pm', \<lparr> written = [True, False, False, False, False, False, True, False, True],
                       capacityBytes = 2 \<rparr>))
   \<and> WriteCode (newPointMetadata BoundFunc NilFunc NilFunc) 5
         \<lparr> written = [True], capacityBytes = 1 \<rparr> = Inl BufferFull"
  using C6_WriteCode_spelling [of "newPointMetadata BoundFunc NilFunc NilFunc" 5
      "\<lparr> written = [True], capacityBytes = 2 \<rparr>" "[]"]
    C6_WriteCode_spelling [of "newPointMetadata BoundFunc NilFunc NilFunc" 5
      "\<lparr> written = [True], capacityBytes = 1 \<rparr>" "[]"]
  by (simp add: newPointMetadata_def spelling_def raw5_def)

text \<open>
  C7. Every PointState returned by \<open>newPointMetadata\<close> starts in mode 4, and its three
  hot slots are the symbols Value1, Value2 and Value3, whose indices are 20, 21 and 22.
\<close>

theorem C7_newPointMetadata_initial_mode:
  "mode (newPointMetadata wb rb rb5) = 4
   \<and> mode41 (newPointMetadata wb rb rb5) = codeWords Value1
   \<and> mode401 (newPointMetadata wb rb rb5) = codeWords Value2
   \<and> mode4001 (newPointMetadata wb rb rb5) = codeWords Value3
   \<and> codeWords Value1 = 20 \<and> codeWords Value2 = 21 \<and> codeWords Value3 = 22"
  by (simp add: newPointMetadata_def)

text \<open>
  C8. In \<open>adaptCommands\<close> the minimum of the four computed mode sizes always equals
  at least one of them, whatever the histogram, so the final branch that aborts with
  the Publisher or Subscriber coding error is never taken: adaptation always returns
  a state.
\<close>

theorem C8_adaptCommands_never_aborts:
  "(minSize s = mode1Size s \<or> minSize s = mode2Size s
      \<or> minSize s = mode3Size s \<or> minSize s = mode4Size s)
   \<and> adaptCommands pm \<noteq> Inl SubscriberCodingError
   \<and> adaptCommands pm \<noteq> Inl PublisherCodingError
   \<and> (\<exists>pm'. adaptCommands pm = Inr pm')"
  using minSize_cases [of s] adaptCommands_total [of pm] by auto

text \<open>
  C9. For every DataRow and every column index whose DataColumn is marked computed,
  \<open>Value\<close> on that index returns \<^verbatim>\<open>nil\<close> and no error, whatever the column's
  declared type and the row's stored values.
\<close>

theorem C9_Value_computed_nil:
  assumes "Column (parent dr) columnIndex = Some column" and "Computed column"
  shows "Value dr columnIndex = Inr None"
  using assms by (simp add: Value_def validateColumnType_def getComputedValue_def)

theorem C9_Value_computed_nil_witness:
  "Column (parent exampleRow) 1 = Some exampleComputedColumn
   \<and> Computed exampleComputedColumn
   \<and> Value exampleRow 1 = Inr None"
  using C9_Value_computed_nil [of exampleRow 1 exampleComputedColumn]
  by (simp add: exampleRow_def exampleTable_def exampleComputedColumn_def)

text \<open>
  C10. For every HashSet \<open>hs\<close> and every slice \<open>other\<close>, \<open>IsProperSupersetOf hs other\<close>
  returns true whenever \<open>hs\<close> is empty, also when \<open>other\<close> is empty: the empty set is
  reported as a proper superset of the empty set.
\<close>

theorem C10_IsProperSupersetOf_empty:
  assumes "IsEmpty hs"
  shows "IsProperSupersetOf hs other = True \<and> IsProperSupersetOf hs [] = True"
  using assms by (simp add: IsProperSupersetOf_def)

theorem C10_IsProperSupersetOf_empty_witness:
  "IsEmpty ({||} :: byte list fset)
   \<and> IsProperSupersetOf ({||} :: byte list fset) [[1, 2], [3]] = True
   \<and> IsProperSupersetOf ({||} :: byte list fset) [] = True"
  using C10_IsProperSupersetOf_empty [of "{||} :: byte list fset" "[[1, 2], [3]]"]
  by (simp add: IsEmpty_def)

end
